theory Spec2Isabelle
  imports
    Main
    "HOL-Library.Char_ord"
    "HOL-Library.List_Lexorder"
    "HOL-Library.Product_Lexorder"
    "HOL-Library.Multiset"
    "HOL-Library.Sublist"
begin

section \<open>Strings and characters of the scraper\<close>

text \<open>
  A Python \<open>str\<close> is a sequence of code points. The embedding uses \<open>string\<close>, whose
  characters are the code points below 256, read through \<open>of_char\<close>. On that range the
  character classes below are the ones Python 3 uses for \<open>str.strip\<close>, \<open>str.lower\<close> and for
  \<open>\s\<close>, \<open>\d\<close>, \<open>\w\<close> in \<open>re\<close> patterns over \<open>str\<close>. String comparison is by code point,
  shorter prefix first, which is the order \<open>List_Lexorder\<close> puts on \<open>char list\<close>.
\<close>

definition code :: "char \<Rightarrow> nat" where
  "code c = of_char c"

text \<open>\<open>\d\<close>: the decimal digits \<open>0\<close> to \<open>9\<close>.\<close>

definition is_digit :: "char \<Rightarrow> bool" where
  "is_digit c \<longleftrightarrow> 48 \<le> code c \<and> code c \<le> 57"

text \<open>\<open>\s\<close> and the characters removed by \<open>str.strip()\<close>: tab to carriage return, the
  four separators 28 to 31, space, NEL (133) and the no-break space (160).\<close>

definition is_space :: "char \<Rightarrow> bool" where
  "is_space c \<longleftrightarrow>
     (9 \<le> code c \<and> code c \<le> 13) \<or> (28 \<le> code c \<and> code c \<le> 32) \<or> code c = 133 \<or> code c = 160"

text \<open>\<open>\w\<close>: letters, digits and numeric characters, and the underscore.\<close>

definition is_word :: "char \<Rightarrow> bool" where
  "is_word c \<longleftrightarrow>
     (48 \<le> code c \<and> code c \<le> 57) \<or> (65 \<le> code c \<and> code c \<le> 90) \<or> code c = 95 \<or>
     (97 \<le> code c \<and> code c \<le> 122) \<or>
     code c \<in> {170, 178, 179, 181, 185, 186, 188, 189, 190} \<or>
     (192 \<le> code c \<and> code c \<le> 255 \<and> code c \<noteq> 215 \<and> code c \<noteq> 247)"

text \<open>\<open>\b\<close> between two neighbouring positions: exactly one side is a word character;
  \<open>None\<close> is the start or the end of the string.\<close>

definition is_word_opt :: "char option \<Rightarrow> bool" where
  "is_word_opt p = (case p of None \<Rightarrow> False | Some c \<Rightarrow> is_word c)"

definition word_boundary :: "char option \<Rightarrow> char option \<Rightarrow> bool" where
  "word_boundary prev nxt \<longleftrightarrow> is_word_opt prev \<noteq> is_word_opt nxt"

definition next_char :: "string \<Rightarrow> char option" where
  "next_char s = (case s of [] \<Rightarrow> None | c # _ \<Rightarrow> Some c)"

text \<open>\<open>str.lower()\<close>, character by character.\<close>

definition lower_char :: "char \<Rightarrow> char" where
  "lower_char c =
     (if (65 \<le> code c \<and> code c \<le> 90) \<or> (192 \<le> code c \<and> code c \<le> 222 \<and> code c \<noteq> 215)
      then char_of (code c + 32) else c)"

definition lower :: "string \<Rightarrow> string" where
  "lower s = map lower_char s"

text \<open>\<open>str.upper()\<close>, character by character, for the characters whose upper case is one
  code point below 256 (all but \<open>\<mu>\<close>, the sharp s and \<open>y\<close> with diaeresis; the scraper calls
  it on matched time tokens only, which hold digits, a colon, white space and the letters of
  the meridiem marker).\<close>

definition upper_char :: "char \<Rightarrow> char" where
  "upper_char c =
     (if (97 \<le> code c \<and> code c \<le> 122) \<or> (224 \<le> code c \<and> code c \<le> 254 \<and> code c \<noteq> 247)
      then char_of (code c - 32) else c)"

definition upper :: "string \<Rightarrow> string" where
  "upper s = map upper_char s"

text \<open>\<open>str.strip()\<close> with no argument.\<close>

definition strip :: "string \<Rightarrow> string" where
  "strip s = rev (dropWhile is_space (rev (dropWhile is_space s)))"

text \<open>\<open>s.replace(" ", "")\<close> and \<open>s.replace("  ", " ")\<close> (left to right, without overlap).\<close>

definition remove_spaces :: "string \<Rightarrow> string" where
  "remove_spaces s = filter (\<lambda>c. c \<noteq> CHR '' '') s"

fun collapse_double_space :: "string \<Rightarrow> string" where
  "collapse_double_space (a # b # rest) =
     (if a = CHR '' '' \<and> b = CHR '' '' then CHR '' '' # collapse_double_space rest
      else a # collapse_double_space (b # rest))"
| "collapse_double_space s = s"

text \<open>\<open>int(s)\<close> on a string of decimal digits. Both scanners call it on the two minute
  digits of a regular-expression match and on nothing else.\<close>

definition digit_val :: "char \<Rightarrow> int" where
  "digit_val c = int (code c) - 48"

definition int_of_digits :: "string \<Rightarrow> int" where
  "int_of_digits s = fold (\<lambda>c n. 10 * n + digit_val c) s 0"

section \<open>Regular expressions of the scraper\<close>

subsection \<open>\<open>(\d{1,2}):(\d{2})\<close>, searched in the time value of a mapping\<close>

text \<open>The pattern anchored at the start of the string; the result is group 2, the two
  minute digits. \<open>\d{1,2}\<close> is greedy: two hour digits are tried before one.\<close>

definition colon_two_digits :: "string \<Rightarrow> bool" where
  "colon_two_digits s =
     (case s of c # d # e # _ \<Rightarrow> c = CHR '':'' \<and> is_digit d \<and> is_digit e | _ \<Rightarrow> False)"

definition match_hhmm :: "string \<Rightarrow> string option" where
  "match_hhmm s =
     (if length s \<ge> 2 \<and> list_all is_digit (take 2 s) \<and> colon_two_digits (drop 2 s)
        then Some (take 2 (drop 3 s))
      else if length s \<ge> 1 \<and> list_all is_digit (take 1 s) \<and> colon_two_digits (drop 1 s)
        then Some (take 2 (drop 2 s))
      else None)"

text \<open>\<open>re.search\<close>: the match at the leftmost position that has one.\<close>

fun search_hhmm :: "string \<Rightarrow> string option" where
  "search_hhmm [] = None"
| "search_hhmm (c # cs) =
     (case match_hhmm (c # cs) of Some m \<Rightarrow> Some m | None \<Rightarrow> search_hhmm cs)"

subsection \<open>\<open>\b\d{1,2}:\d{2}(?:\s?[AP]M)?\b\<close> with \<open>re.IGNORECASE\<close>, searched in a snippet\<close>

definition is_ap :: "char \<Rightarrow> bool" where
  "is_ap c \<longleftrightarrow> c \<in> set ''APap''"

definition is_m :: "char \<Rightarrow> bool" where
  "is_m c \<longleftrightarrow> c \<in> set ''Mm''"

text \<open>\<open>[AP]M\b\<close> at the start of the string.\<close>

definition meridiem :: "string \<Rightarrow> bool" where
  "meridiem s =
     (case s of a # m # rest \<Rightarrow> is_ap a \<and> is_m m \<and> word_boundary (Some m) (next_char rest)
      | _ \<Rightarrow> False)"

text \<open>\<open>(?:\s?[AP]M)?\b\<close> after the minute digit \<open>prev\<close>: how many characters it takes.
  The alternatives are tried in the order of the backtracking matcher: the group with a
  white-space character, the group without one, then the empty group.\<close>

definition time_tail :: "char \<Rightarrow> string \<Rightarrow> nat option" where
  "time_tail prev s =
     (if (case s of w # rest \<Rightarrow> is_space w \<and> meridiem rest | _ \<Rightarrow> False) then Some 3
      else if meridiem s then Some 2
      else if word_boundary (Some prev) (next_char s) then Some 0
      else None)"

text \<open>The pattern after its leading \<open>\b\<close>, with \<open>n\<close> hour digits; the result is the whole
  match (group 0).\<close>

definition match_time_hour :: "nat \<Rightarrow> string \<Rightarrow> string option" where
  "match_time_hour n s =
     (if length s \<ge> n \<and> list_all is_digit (take n s) \<and> colon_two_digits (drop n s)
      then (case time_tail (s ! (n + 2)) (drop (n + 3) s) of
              Some k \<Rightarrow> Some (take (n + 3 + k) s)
            | None \<Rightarrow> None)
      else None)"

definition match_time :: "char option \<Rightarrow> string \<Rightarrow> string option" where
  "match_time prev s =
     (if word_boundary prev (next_char s)
      then (case match_time_hour 2 s of Some t \<Rightarrow> Some t | None \<Rightarrow> match_time_hour 1 s)
      else None)"

fun search_time_from :: "char option \<Rightarrow> string \<Rightarrow> string option" where
  "search_time_from prev [] = None"
| "search_time_from prev (c # cs) =
     (case match_time prev (c # cs) of
        Some t \<Rightarrow> Some t
      | None \<Rightarrow> search_time_from (Some c) cs)"

definition search_time :: "string \<Rightarrow> string option" where
  "search_time s = search_time_from None s"

subsection \<open>\<open>\$\s*\d+(?:\.\d{2})?\<close>, searched by \<open>_parse_currency\<close>\<close>

definition fraction :: "string \<Rightarrow> string" where
  "fraction s =
     (case s of p # x # y # _ \<Rightarrow> if p = CHR ''.'' \<and> is_digit x \<and> is_digit y then [p, x, y] else []
      | _ \<Rightarrow> [])"

definition match_currency :: "string \<Rightarrow> string option" where
  "match_currency s =
     (case s of
        [] \<Rightarrow> None
      | c # cs \<Rightarrow>
          (let ws = takeWhile is_space cs;
               ds = takeWhile is_digit (dropWhile is_space cs);
               r = dropWhile is_digit (dropWhile is_space cs)
           in if c = CHR ''$'' \<and> ds \<noteq> [] then Some (c # ws @ ds @ fraction r) else None))"

fun search_currency :: "string \<Rightarrow> string option" where
  "search_currency [] = None"
| "search_currency (c # cs) =
     (case match_currency (c # cs) of Some m \<Rightarrow> Some m | None \<Rightarrow> search_currency cs)"

text \<open>\<open>_parse_currency\<close>: the first match without its space characters, or the empty
  string.\<close>

definition parse_currency :: "string \<Rightarrow> string" where
  "parse_currency text = (case search_currency text of Some m \<Rightarrow> remove_spaces m | None \<Rightarrow> [])"

section \<open>Data model\<close>

record TicketSlot =
  date :: string
  time :: string
  price :: string
  source :: string

text \<open>A decoded JSON payload, as \<open>response.json()\<close> returns it: \<open>None\<close>, a \<open>bool\<close>, an
  \<open>int\<close>, a \<open>float\<close>, a \<open>str\<close>, a \<open>list\<close>, or a \<open>dict\<close> with \<open>str\<close> keys. The embedding is
  parametric in the type \<open>'f\<close> of floats. A \<open>dict\<close> is the list of its items in iteration
  order; the keys of a Python \<open>dict\<close> are distinct.\<close>

datatype 'f json =
    JNull
  | JBool bool
  | JInt int
  | JFloat 'f
  | JStr string
  | JArr "'f json list"
  | JObj "(string \<times> 'f json) list"

subsection \<open>\<open>str\<close> and \<open>repr\<close> of a payload\<close>

text \<open>\<open>repr\<close> of an \<open>int\<close>: its decimal digits, after a minus sign when negative.\<close>

fun nat_repr :: "nat \<Rightarrow> string" where
  "nat_repr n = (if n < 10 then [char_of (48 + n)] else nat_repr (n div 10) @ [char_of (48 + n mod 10)])"

definition int_repr :: "int \<Rightarrow> string" where
  "int_repr i = (if i < 0 then CHR ''-'' # nat_repr (nat (- i)) else nat_repr (nat i))"

text \<open>\<open>repr\<close> of a \<open>str\<close>: in single quotes, or in double quotes when the string has a single
  quote and no double quote; the quote and the backslash are escaped, tab, line feed and
  carriage return are written \<open>\t\<close>, \<open>\n\<close>, \<open>\r\<close>, and the other characters that are not
  printable are written \<open>\xhh\<close>.\<close>

definition is_printable :: "char \<Rightarrow> bool" where
  "is_printable c \<longleftrightarrow> (32 \<le> code c \<and> code c \<le> 126) \<or> (161 \<le> code c \<and> code c \<noteq> 173)"

definition hex_digit :: "nat \<Rightarrow> char" where
  "hex_digit n = (if n < 10 then char_of (48 + n) else char_of (87 + n))"

definition repr_char :: "char \<Rightarrow> char \<Rightarrow> string" where
  "repr_char quote c =
     (if c = quote \<or> c = CHR 0x5C then [CHR 0x5C, c]
      else if c = CHR 0x09 then [CHR 0x5C, CHR ''t'']
      else if c = CHR 0x0A then [CHR 0x5C, CHR ''n'']
      else if c = CHR 0x0D then [CHR 0x5C, CHR ''r'']
      else if is_printable c then [c]
      else [CHR 0x5C, CHR ''x'', hex_digit (code c div 16), hex_digit (code c mod 16)])"

definition repr_str :: "string \<Rightarrow> string" where
  "repr_str s =
     (let quote = (if CHR 0x27 \<in> set s \<and> CHR 0x22 \<notin> set s then CHR 0x22 else CHR 0x27)
      in quote # concat (map (repr_char quote) s) @ [quote])"

text \<open>\<open>", ".join(parts)\<close>.\<close>

fun join_comma :: "string list \<Rightarrow> string" where
  "join_comma [] = []"
| "join_comma [part] = part"
| "join_comma (part # parts) = part @ '', '' @ join_comma parts"

text \<open>\<open>repr(v)\<close>; the text of a \<open>float\<close> is given by the parameter \<open>float_repr\<close>.\<close>

primrec py_repr :: "('f \<Rightarrow> string) \<Rightarrow> 'f json \<Rightarrow> string" where
  "py_repr float_repr JNull = ''None''"
| "py_repr float_repr (JBool b) = (if b then ''True'' else ''False'')"
| "py_repr float_repr (JInt i) = int_repr i"
| "py_repr float_repr (JFloat x) = float_repr x"
| "py_repr float_repr (JStr s) = repr_str s"
| "py_repr float_repr (JArr items) = ''['' @ join_comma (map (py_repr float_repr) items) @ '']''"
| "py_repr float_repr (JObj items) =
     ''{'' @ join_comma (map (\<lambda>(k, r). repr_str k @ '': '' @ r)
                          (map (map_prod id (py_repr float_repr)) items)) @ ''}''"

text \<open>\<open>str(v)\<close>: a \<open>str\<close> is returned as it is, every other value as its \<open>repr\<close>.\<close>

definition py_str :: "('f \<Rightarrow> string) \<Rightarrow> 'f json \<Rightarrow> string" where
  "py_str float_repr v = (case v of JStr s \<Rightarrow> s | _ \<Rightarrow> py_repr float_repr v)"

text \<open>\<open>d.get(k, default)\<close>.\<close>

definition dict_get :: "('k \<times> 'v) list \<Rightarrow> 'k \<Rightarrow> 'v \<Rightarrow> 'v" where
  "dict_get d k dflt = (case map_of d k of Some v \<Rightarrow> v | None \<Rightarrow> dflt)"

text \<open>\<open>d[k] = v\<close> on an insertion-ordered \<open>dict\<close>: a key that is present keeps its place and
  gets the new value, a new key goes to the end.\<close>

fun dict_set :: "'k \<Rightarrow> 'v \<Rightarrow> ('k \<times> 'v) list \<Rightarrow> ('k \<times> 'v) list" where
  "dict_set k v [] = [(k, v)]"
| "dict_set k v ((k', v') # d) = (if k = k' then (k, v) # d else (k', v') # dict_set k v d)"

definition dict_values :: "('k \<times> 'v) list \<Rightarrow> 'v list" where
  "dict_values d = map snd d"

section \<open>The JSON scanner \<open>_collect_slots_from_json\<close>\<close>

text \<open>\<open>keys = {k.lower(): k for k in payload.keys()}\<close>: of several keys with the same lower
  case the last one stays.\<close>

definition lower_keys :: "(string \<times> 'v) list \<Rightarrow> (string \<rightharpoonup> string)" where
  "lower_keys payload = fold (\<lambda>k m. m(lower k \<mapsto> k)) (map fst payload) Map.empty"

text \<open>\<open>next((keys[k] for k in aliases if k in keys), None)\<close>.\<close>

fun first_alias :: "(string \<rightharpoonup> string) \<Rightarrow> string list \<Rightarrow> string option" where
  "first_alias keys [] = None"
| "first_alias keys (k # aliases) =
     (case keys k of Some orig \<Rightarrow> Some orig | None \<Rightarrow> first_alias keys aliases)"

definition time_aliases :: "string list" where
  "time_aliases = [''time'', ''starttime'', ''start_time'', ''slot_time'']"

definition price_aliases :: "string list" where
  "price_aliases = [''price'', ''adultprice'', ''adult_price'', ''displayprice'', ''formattedprice'']"

text \<open>The truth value of \<open>time_key\<close> and of \<open>price_key\<close>: neither \<open>None\<close> nor empty.\<close>

definition truthy :: "string option \<Rightarrow> bool" where
  "truthy k = (case k of None \<Rightarrow> False | Some s \<Rightarrow> s \<noteq> [])"

text \<open>Lines 57 to 70: the slot that a mapping itself appends to \<open>out\<close>, if any.\<close>

definition mapping_slot :: "('f \<Rightarrow> string) \<Rightarrow> (string \<times> 'f json) list \<Rightarrow> string \<Rightarrow> TicketSlot option" where
  "mapping_slot float_repr payload requested_date =
     (let keys = lower_keys payload;
          time_key = first_alias keys time_aliases;
          price_key = first_alias keys price_aliases
      in if truthy time_key \<and> truthy price_key then
           (let raw_time = strip (py_str float_repr (dict_get payload (the time_key) (JStr [])));
                raw_price = strip (py_str float_repr (dict_get payload (the price_key) (JStr [])))
            in case search_hhmm raw_time of
                 None \<Rightarrow> None
               | Some minute \<Rightarrow>
                   if int_of_digits minute mod 10 = 0 \<and> raw_price \<noteq> []
                   then Some \<lparr>date = requested_date, time = raw_time, price = raw_price,
                              source = ''network-json''\<rparr>
                   else None)
         else None)"

text \<open>The scanner appends to the list \<open>out\<close> it is given; the embedding returns the list
  after the call.\<close>

function collect_slots_from_json ::
  "('f \<Rightarrow> string) \<Rightarrow> 'f json \<Rightarrow> TicketSlot list \<Rightarrow> string \<Rightarrow> TicketSlot list" where
  "collect_slots_from_json float_repr (JArr payload) out requested_date =
     fold (\<lambda>item out'. collect_slots_from_json float_repr item out' requested_date) payload out"
| "collect_slots_from_json float_repr (JObj payload) out requested_date =
     fold (\<lambda>v out'. collect_slots_from_json float_repr v out' requested_date)
       (dict_values payload)
       (case mapping_slot float_repr payload requested_date of
          Some slot \<Rightarrow> out @ [slot]
        | None \<Rightarrow> out)"
| "collect_slots_from_json float_repr JNull out requested_date = out"
| "collect_slots_from_json float_repr (JBool b) out requested_date = out"
| "collect_slots_from_json float_repr (JInt i) out requested_date = out"
| "collect_slots_from_json float_repr (JFloat x) out requested_date = out"
| "collect_slots_from_json float_repr (JStr s) out requested_date = out"
  by pat_completeness auto
termination
proof (relation "measure (\<lambda>(float_repr, payload, out, requested_date). size payload)")
  show "wf (measure (\<lambda>(float_repr :: 'f \<Rightarrow> string, payload :: 'f json, out :: TicketSlot list,
      requested_date :: string). size payload))"
    by simp
next
  fix float_repr :: "'f \<Rightarrow> string" and payload :: "'f json list" and out out' :: "TicketSlot list"
    and requested_date :: string and item :: "'f json"
  assume "item \<in> set payload"
  then have "size item < size (JArr payload)"
    by (induction payload) auto
  then show "((float_repr, item, out', requested_date), (float_repr, JArr payload, out, requested_date))
      \<in> measure (\<lambda>(float_repr, payload, out, requested_date). size payload)"
    by simp
next
  fix float_repr :: "'f \<Rightarrow> string" and payload :: "(string \<times> 'f json) list"
    and out out' :: "TicketSlot list" and requested_date :: string and v :: "'f json"
  assume "v \<in> set (dict_values payload)"
  then have "size v < size (JObj payload)"
    by (induction payload) (force simp: dict_values_def)+
  then show "((float_repr, v, out', requested_date), (float_repr, JObj payload, out, requested_date))
      \<in> measure (\<lambda>(float_repr, payload, out, requested_date). size payload)"
    by simp
qed

section \<open>The DOM scanner \<open>_collect_slots_from_dom\<close>\<close>

text \<open>The errors a call can raise: a failed Playwright call (\<open>inner_text\<close> timing out or
  losing its element), and \<open>IndexError\<close> from indexing a list.\<close>

datatype py_error = PlaywrightError | IndexError

text \<open>One element of \<open>page.locator("button, li, div, span")\<close>: what \<open>inner_text\<close> gives on
  the element and on its parent (\<open>locator("xpath=..")\<close>), a string or a raised error.\<close>

record element =
  inner_text :: "py_error + string"
  parent_inner_text :: "py_error + string"

text \<open>\<open>s.split(":")\<close>.\<close>

fun split_colon :: "string \<Rightarrow> string list" where
  "split_colon [] = [[]]"
| "split_colon (c # cs) =
     (if c = CHR '':'' then [] # split_colon cs
      else (case split_colon cs of piece # pieces \<Rightarrow> (c # piece) # pieces | [] \<Rightarrow> [[c]]))"

text \<open>The body of the loop over the candidates, lines 89 to 111: \<open>Inl\<close> is a raised error,
  \<open>Inr None\<close> a \<open>continue\<close>, \<open>Inr (Some slot)\<close> the slot appended to \<open>slots\<close>.\<close>

definition scan_candidate :: "string \<Rightarrow> element \<Rightarrow> py_error + TicketSlot option" where
  "scan_candidate requested_date e =
     (case inner_text e of
        Inl err \<Rightarrow> Inl err
      | Inr raw \<Rightarrow>
          (let text = strip raw in
           if text = [] \<or> length text > 200 then Inr None
           else
             (case search_time text of
                None \<Rightarrow> Inr None
              | Some tm \<Rightarrow>
                  (case split_colon tm of
                     _ # piece # _ \<Rightarrow>
                       if int_of_digits (take 2 piece) mod 10 \<noteq> 0 then Inr None
                       else
                         (case (if parse_currency text \<noteq> [] then Inr (parse_currency text)
                                else (case parent_inner_text e of
                                        Inl err \<Rightarrow> Inl err
                                      | Inr parent_text \<Rightarrow> Inr (parse_currency parent_text))) of
                            Inl err \<Rightarrow> Inl err
                          | Inr price' \<Rightarrow>
                              if price' = [] then Inr None
                              else Inr (Some \<lparr>date = requested_date,
                                              time = collapse_double_space (upper tm),
                                              price = price', source = ''dom''\<rparr>))
                   | _ \<Rightarrow> Inl IndexError))))"

text \<open>The loop: an error raised by one candidate leaves the loop and the function.\<close>

fun scan_candidates :: "string \<Rightarrow> element list \<Rightarrow> TicketSlot list \<Rightarrow> py_error + TicketSlot list" where
  "scan_candidates requested_date [] slots = Inr slots"
| "scan_candidates requested_date (e # es) slots =
     (case scan_candidate requested_date e of
        Inl err \<Rightarrow> Inl err
      | Inr None \<Rightarrow> scan_candidates requested_date es slots
      | Inr (Some slot) \<Rightarrow> scan_candidates requested_date es (slots @ [slot]))"

text \<open>\<open>uniq[(s.time, s.price)] = s\<close> for every slot, and the same loop on \<open>dedup\<close> in
  \<open>scrape_top_of_rock\<close>.\<close>

definition slot_key :: "TicketSlot \<Rightarrow> string \<times> string" where
  "slot_key s = (time s, price s)"

definition dedup_slots :: "TicketSlot list \<Rightarrow> ((string \<times> string) \<times> TicketSlot) list" where
  "dedup_slots slots = fold (\<lambda>s uniq. dict_set (slot_key s) s uniq) slots []"

definition collect_slots_from_dom :: "element list \<Rightarrow> string \<Rightarrow> py_error + TicketSlot list" where
  "collect_slots_from_dom page requested_date =
     (let candidates = page;
          count = min (length candidates) 4000
      in case scan_candidates requested_date (take count candidates) [] of
           Inl err \<Rightarrow> Inl err
         | Inr slots \<Rightarrow> Inr (dict_values (dedup_slots slots)))"

section \<open>The reconciler in \<open>scrape_top_of_rock\<close>\<close>

text \<open>Lines 184 to 191: the network slots followed by the DOM slots go through \<open>dedup\<close>,
  and the values are sorted by the key \<open>(s.time, s.price)\<close>; \<open>sorted\<close> is stable, as
  \<open>sort_key\<close> is.\<close>

definition reconcile :: "TicketSlot list \<Rightarrow> TicketSlot list \<Rightarrow> TicketSlot list" where
  "reconcile slots_from_network dom_slots =
     (let all_slots = slots_from_network @ dom_slots;
          dedup = dedup_slots all_slots
      in sort_key slot_key (dict_values dedup))"

text \<open>\<open>scrape_top_of_rock\<close> without the browser and the files: \<open>payloads\<close> are the decoded
  responses that \<open>on_response\<close> passes to the JSON scanner, in the order of arrival, and
  \<open>page\<close> is the element list of the page when the DOM scanner runs. Nothing catches an
  error of the DOM scanner.\<close>

definition scrape_top_of_rock ::
  "('f \<Rightarrow> string) \<Rightarrow> 'f json list \<Rightarrow> element list \<Rightarrow> string \<Rightarrow> py_error + TicketSlot list" where
  "scrape_top_of_rock float_repr payloads page requested_date =
     (let slots_from_network =
            fold (\<lambda>payload out. collect_slots_from_json float_repr payload out requested_date) payloads []
      in case collect_slots_from_dom page requested_date of
           Inl err \<Rightarrow> Inl err
         | Inr dom_slots \<Rightarrow> Inr (reconcile slots_from_network dom_slots))"

section \<open>Notions used to state the properties\<close>

text \<open>A value directly inside another one: an element of a sequence, or a value of a
  mapping. A value nested at any depth is reached by \<open>child\<^sup>*\<^sup>*\<close>.\<close>

inductive child :: "'f json \<Rightarrow> 'f json \<Rightarrow> bool" where
  element: "item \<in> set items \<Longrightarrow> child (JArr items) item"
| mapping_value: "v \<in> set (dict_values items) \<Longrightarrow> child (JObj items) v"

text \<open>The same payload with the elements of its sequences permuted, at any depth: the keys
  of a mapping stay as they are.\<close>

inductive permuted :: "'f json \<Rightarrow> 'f json \<Rightarrow> bool" where
  null: "permuted JNull JNull"
| bool: "permuted (JBool b) (JBool b)"
| int: "permuted (JInt i) (JInt i)"
| float: "permuted (JFloat x) (JFloat x)"
| str: "permuted (JStr s) (JStr s)"
| arr: "list_all2 permuted items items' \<Longrightarrow> mset items'' = mset items' \<Longrightarrow>
        permuted (JArr items) (JArr items'')"
| obj: "map fst items = map fst items' \<Longrightarrow>
        list_all2 permuted (map snd items) (map snd items') \<Longrightarrow>
        permuted (JObj items) (JObj items')"

text \<open>A value that holds no sequence, and a payload in which no value stored under one of
  the time or price aliases holds a sequence.\<close>

fun seq_free :: "'f json \<Rightarrow> bool" where
  "seq_free (JArr items) = False"
| "seq_free (JObj items) = (\<forall>(k, v) \<in> set items. seq_free v)"
| "seq_free _ = True"

fun slot_values_seq_free :: "'f json \<Rightarrow> bool" where
  "slot_values_seq_free (JArr items) = (\<forall>item \<in> set items. slot_values_seq_free item)"
| "slot_values_seq_free (JObj items) =
     (\<forall>(k, v) \<in> set items.
        (lower k \<in> set (time_aliases @ price_aliases) \<longrightarrow> seq_free v) \<and> slot_values_seq_free v)"
| "slot_values_seq_free _ = True"

text \<open>A string with an \<open>HH:MM\<close>-shaped part (one or two digits, a colon, two digits) whose
  minutes are a multiple of 10.\<close>

definition has_ten_minute_time :: "string \<Rightarrow> bool" where
  "has_ten_minute_time t \<longleftrightarrow>
     (\<exists>pre h m post. t = pre @ h @ CHR '':'' # m @ post \<and>
        h \<noteq> [] \<and> length h \<le> 2 \<and> list_all is_digit h \<and>
        length m = 2 \<and> list_all is_digit m \<and> int_of_digits m mod 10 = 0)"

text \<open>A currency-formatted string: a dollar sign, white space or none, digits, and a
  fraction of two digits or none.\<close>

definition currency_formatted :: "string \<Rightarrow> bool" where
  "currency_formatted m \<longleftrightarrow>
     (\<exists>ws ds fr. m = CHR ''$'' # ws @ ds @ fr \<and> list_all is_space ws \<and>
        ds \<noteq> [] \<and> list_all is_digit ds \<and>
        (fr = [] \<or> (\<exists>x y. fr = [CHR ''.'', x, y] \<and> is_digit x \<and> is_digit y)))"

text \<open>Names for the parts of \<open>mapping_slot\<close>: the trimmed strings of the time and the
  price value, and the test that both keys were found.\<close>

definition raw_time :: "('f \<Rightarrow> string) \<Rightarrow> (string \<times> 'f json) list \<Rightarrow> string" where
  "raw_time fr payload =
     strip (py_str fr (dict_get payload (the (first_alias (lower_keys payload) time_aliases)) (JStr [])))"

definition raw_price :: "('f \<Rightarrow> string) \<Rightarrow> (string \<times> 'f json) list \<Rightarrow> string" where
  "raw_price fr payload =
     strip (py_str fr (dict_get payload (the (first_alias (lower_keys payload) price_aliases)) (JStr [])))"

definition keys_found :: "(string \<times> 'f json) list \<Rightarrow> bool" where
  "keys_found payload \<longleftrightarrow>
     truthy (first_alias (lower_keys payload) time_aliases) \<and>
     truthy (first_alias (lower_keys payload) price_aliases)"


text \<open>The key that a list of aliases selects in a mapping, in the words of the
  specification: of the aliases, in list order, the first that is the lower case of some
  key; it stands for the key with that lower case, the last one in iteration order when
  there are several.\<close>

definition first_matching_key :: "string list \<Rightarrow> (string \<times> 'v) list \<Rightarrow> string option" where
  "first_matching_key aliases payload =
     (case filter (\<lambda>a. a \<in> lower ` fst ` set payload) aliases of
        [] \<Rightarrow> None
      | a # _ \<Rightarrow> Some (last (filter (\<lambda>k. lower k = a) (map fst payload))))"


section \<open>Properties of the insertion-ordered dictionary and the reconciler\<close>

lemma map_of_dict_set: "map_of (dict_set k v d) = (map_of d)(k \<mapsto> v)"
  by (induction d) (auto simp: fun_eq_iff)

lemma map_fst_dict_set:
  "map fst (dict_set k v d) = (if k \<in> set (map fst d) then map fst d else map fst d @ [k])"
  by (induction d) force+

lemma keys_dict_set: "fst ` set (dict_set k v d) = insert k (fst ` set d)"
proof -
  have "set (map fst (dict_set k v d)) = insert k (set (map fst d))"
    unfolding map_fst_dict_set by auto
  then show ?thesis by simp
qed

lemma distinct_dict_set: "distinct (map fst d) \<Longrightarrow> distinct (map fst (dict_set k v d))"
  by (simp add: map_fst_dict_set)

lemma keyed_dict_set:
  "\<forall>(k', s') \<in> set d. k' = slot_key s' \<Longrightarrow> \<forall>(k', s') \<in> set (dict_set (slot_key s) s d). k' = slot_key s'"
  by (induction d) (auto split: if_splits)

lemma fold_dict_set_distinct:
  "distinct (map fst d) \<Longrightarrow> distinct (map fst (fold (\<lambda>s uniq. dict_set (slot_key s) s uniq) slots d))"
  by (induction slots arbitrary: d) (simp_all add: distinct_dict_set)

lemma fold_dict_set_keyed:
  "\<forall>(k', s') \<in> set d. k' = slot_key s' \<Longrightarrow>
   \<forall>(k', s') \<in> set (fold (\<lambda>s uniq. dict_set (slot_key s) s uniq) slots d). k' = slot_key s'"
proof (induction slots arbitrary: d)
  case Nil
  then show ?case by simp
next
  case (Cons s slots)
  have "\<forall>(k', s') \<in> set (dict_set (slot_key s) s d). k' = slot_key s'"
    by (rule keyed_dict_set [OF Cons.prems])
  from Cons.IH [OF this] show ?case
    by simp
qed

lemma fold_dict_set_map_of:
  "map_of (fold (\<lambda>s uniq. dict_set (slot_key s) s uniq) slots d) k =
     (case filter (\<lambda>s. slot_key s = k) slots of
        [] \<Rightarrow> map_of d k
      | x # xs \<Rightarrow> Some (last (x # xs)))"
proof (induction slots arbitrary: d)
  case Nil
  then show ?case by simp
next
  case (Cons s slots)
  show ?case
    by (simp add: Cons.IH map_of_dict_set split: list.splits)
qed

lemma dedup_slots_distinct: "distinct (map fst (dedup_slots slots))"
  unfolding dedup_slots_def by (rule fold_dict_set_distinct) simp

lemma dedup_slots_keyed: "(k, s) \<in> set (dedup_slots slots) \<Longrightarrow> k = slot_key s"
  using fold_dict_set_keyed [of "[]" slots] unfolding dedup_slots_def by auto

lemma dedup_slots_map_of:
  "map_of (dedup_slots slots) k =
     (if filter (\<lambda>s. slot_key s = k) slots = [] then None
      else Some (last (filter (\<lambda>s. slot_key s = k) slots)))"
  unfolding dedup_slots_def by (simp add: fold_dict_set_map_of split: list.splits)

lemma values_with_key:
  assumes "distinct (map fst d)" and "\<forall>(k', s') \<in> set d. k' = slot_key s'"
  shows "filter (\<lambda>s. slot_key s = k) (map snd d) = (case map_of d k of None \<Rightarrow> [] | Some s \<Rightarrow> [s])"
  using assms
proof (induction d)
  case Nil
  then show ?case by simp
next
  case (Cons p d)
  obtain k' s' where p: "p = (k', s')" by (cases p)
  from Cons.prems p have k': "k' = slot_key s'" and notin: "k' \<notin> fst ` set d" by auto
  from Cons have IH: "filter (\<lambda>s. slot_key s = k) (map snd d) = (case map_of d k of None \<Rightarrow> [] | Some s \<Rightarrow> [s])"
    by simp
  show ?case
  proof (cases "k = k'")
    case True
    with notin have "map_of d k = None" by (simp add: map_of_eq_None_iff)
    with IH True p k' show ?thesis by simp
  next
    case False
    with IH p k' show ?thesis by auto
  qed
qed

lemma reconcile_filter_key:
  "filter (\<lambda>s. slot_key s = k) (reconcile net dsl) =
     (if filter (\<lambda>s. slot_key s = k) (net @ dsl) = [] then []
      else [last (filter (\<lambda>s. slot_key s = k) (net @ dsl))])"
proof -
  have "filter (\<lambda>s. slot_key s = k) (map snd (dedup_slots (net @ dsl))) =
      (case map_of (dedup_slots (net @ dsl)) k of None \<Rightarrow> [] | Some s \<Rightarrow> [s])"
    by (rule values_with_key) (use dedup_slots_distinct dedup_slots_keyed in auto)
  then show ?thesis
    by (simp add: reconcile_def dict_values_def filter_sort dedup_slots_map_of)
qed

lemma reconcile_sorted: "sorted (map slot_key (reconcile net dsl))"
  by (simp add: reconcile_def)

lemma reconcile_distinct_keys: "distinct (map slot_key (reconcile net dsl))"
proof -
  have "map slot_key (map snd (dedup_slots (net @ dsl))) = map fst (dedup_slots (net @ dsl))"
    using dedup_slots_keyed by auto
  then have "distinct (map slot_key (dict_values (dedup_slots (net @ dsl))))"
    using dedup_slots_distinct [of "net @ dsl"] unfolding dict_values_def by presburger
  then have "distinct (map slot_key (sort_key slot_key (dict_values (dedup_slots (net @ dsl)))))"
    by (metis distinct_map distinct_sort set_sort)
  then show ?thesis
    by (simp add: reconcile_def)
qed


lemma reconcile_set_keys: "slot_key ` set (reconcile net dsl) = slot_key ` set (net @ dsl)"
proof -
  have "map slot_key (map snd (dedup_slots (net @ dsl))) = map fst (dedup_slots (net @ dsl))"
    using dedup_slots_keyed by auto
  then have "slot_key ` set (map snd (dedup_slots (net @ dsl))) = set (map fst (dedup_slots (net @ dsl)))"
    by (metis list.set_map)
  moreover have "set (map fst (dedup_slots (net @ dsl))) = slot_key ` set (net @ dsl)"
  proof -
    have "fst ` set (fold (\<lambda>s uniq. dict_set (slot_key s) s uniq) slots d) =
        fst ` set d \<union> slot_key ` set slots" for slots d
      by (induction slots arbitrary: d) (simp_all add: keys_dict_set)
    then show ?thesis by (simp add: dedup_slots_def image_Un)
  qed
  ultimately show ?thesis
    by (simp add: reconcile_def dict_values_def)
qed

subsection \<open>Claim C7: the order of the output\<close>

text \<open>
  C7, amended. The output of the reconciler is ordered by the pair \<open>(time, price)\<close> under
  string comparison, strictly so, since no key occurs twice. The order is not chronological:
  \<open>10:00 AM\<close> comes before \<open>9:00 AM\<close>.
\<close>

theorem reconcile_orders_by_time_then_price:
  "sorted_wrt (\<lambda>a b. time a < time b \<or> (time a = time b \<and> price a < price b))
     (reconcile slots_from_network dom_slots) \<and>
   map time (reconcile []
     [\<lparr>date = ''2024-06-01'', time = ''9:00 AM'', price = ''$40'', source = ''dom''\<rparr>,
      \<lparr>date = ''2024-06-01'', time = ''10:00 AM'', price = ''$40'', source = ''dom''\<rparr>])
     = [''10:00 AM'', ''9:00 AM'']"
proof
  have "sorted (map slot_key (reconcile slots_from_network dom_slots))"
    by (rule reconcile_sorted)
  moreover have "distinct (map slot_key (reconcile slots_from_network dom_slots))"
    by (rule reconcile_distinct_keys)
  ultimately have "sorted_wrt (<) (map slot_key (reconcile slots_from_network dom_slots))"
    by (simp add: strict_sorted_iff)
  then have "sorted_wrt (\<lambda>a b. slot_key a < slot_key b) (reconcile slots_from_network dom_slots)"
    by (simp add: sorted_wrt_map)
  moreover have "slot_key a < slot_key b \<longleftrightarrow>
      time a < time b \<or> (time a = time b \<and> price a < price b)" for a b
    by (auto simp: slot_key_def)
  ultimately show "sorted_wrt (\<lambda>a b. time a < time b \<or> (time a = time b \<and> price a < price b))
     (reconcile slots_from_network dom_slots)"
    by simp
next
  show "map time (reconcile []
     [\<lparr>date = ''2024-06-01'', time = ''9:00 AM'', price = ''$40'', source = ''dom''\<rparr>,
      \<lparr>date = ''2024-06-01'', time = ''10:00 AM'', price = ''$40'', source = ''dom''\<rparr>])
     = [''10:00 AM'', ''9:00 AM'']"
    by code_simp
qed

text \<open>
  C7 as stated gives \<open>1:00 PM\<close> before \<open>10:30 AM\<close> as its example. The reconciler puts
  \<open>10:30 AM\<close> first: the strings agree on \<open>1\<close>, and \<open>0\<close> is below the colon.
\<close>

theorem reconcile_example_order_counterexample:
  "map time (reconcile []
     [\<lparr>date = ''2024-06-01'', time = ''1:00 PM'', price = ''$40'', source = ''dom''\<rparr>,
      \<lparr>date = ''2024-06-01'', time = ''10:30 AM'', price = ''$40'', source = ''dom''\<rparr>])
     = [''10:30 AM'', ''1:00 PM''] \<and> \<not> ''1:00 PM'' < ''10:30 AM''"
  by code_simp

subsection \<open>Claim C1: a key found by both scanners\<close>

text \<open>
  C1 as stated has the network slot survive. With one network candidate and one DOM
  candidate for \<open>10:30 AM\<close> at \<open>$42.00\<close>, the one slot of the output is tagged \<open>dom\<close>.
\<close>

theorem reconcile_network_tag_counterexample:
  "map source (reconcile
     [\<lparr>date = ''2024-06-01'', time = ''10:30 AM'', price = ''$42.00'', source = ''network-json''\<rparr>]
     [\<lparr>date = ''2024-06-01'', time = ''10:30 AM'', price = ''$42.00'', source = ''dom''\<rparr>])
     = [''dom''] \<and>
   map source (reconcile
     [\<lparr>date = ''2024-06-01'', time = ''10:30 AM'', price = ''$42.00'', source = ''network-json''\<rparr>]
     [\<lparr>date = ''2024-06-01'', time = ''10:30 AM'', price = ''$42.00'', source = ''dom''\<rparr>])
     \<noteq> [''network-json'']"
  by code_simp

text \<open>
  C1, amended. When a network candidate and a DOM candidate have the same \<open>(time, price)\<close>
  key, the output has exactly one slot with that key: the last DOM candidate with it, tagged
  \<open>dom\<close>, because \<open>dedup[key] = slot\<close> overwrites the network slot written before. Two
  candidates with the same time and different prices are both kept, as different slots.
\<close>

theorem reconcile_last_write_governs:
  assumes "n \<in> set slots_from_network" and "d \<in> set dom_slots"
    and "slot_key n = slot_key d"
    and "\<forall>s \<in> set dom_slots. source s = ''dom''"
  shows "(\<exists>r. filter (\<lambda>s. slot_key s = slot_key d) (reconcile slots_from_network dom_slots) = [r]
            \<and> r = last (filter (\<lambda>s. slot_key s = slot_key d) dom_slots)
            \<and> r \<in> set dom_slots \<and> source r = ''dom'') \<and>
         (\<forall>a \<in> set (slots_from_network @ dom_slots). \<forall>b \<in> set (slots_from_network @ dom_slots).
            time a = time b \<and> price a \<noteq> price b \<longrightarrow>
            (\<exists>a' \<in> set (reconcile slots_from_network dom_slots).
             \<exists>b' \<in> set (reconcile slots_from_network dom_slots).
               slot_key a' = slot_key a \<and> slot_key b' = slot_key b \<and> a' \<noteq> b'))"
proof
  let ?k = "slot_key d"
  let ?same = "filter (\<lambda>s. slot_key s = ?k) dom_slots"
  from assms(2) have ne: "?same \<noteq> []"
    by (auto simp: filter_empty_conv)
  then have "filter (\<lambda>s. slot_key s = ?k) (reconcile slots_from_network dom_slots) = [last ?same]"
    by (simp add: reconcile_filter_key)
  moreover from ne have "last ?same \<in> set ?same"
    by (rule last_in_set)
  then have "last ?same \<in> set dom_slots"
    by simp
  ultimately show "\<exists>r. filter (\<lambda>s. slot_key s = ?k) (reconcile slots_from_network dom_slots) = [r]
      \<and> r = last ?same \<and> r \<in> set dom_slots \<and> source r = ''dom''"
    using assms(4) by blast
next
  show "\<forall>a \<in> set (slots_from_network @ dom_slots). \<forall>b \<in> set (slots_from_network @ dom_slots).
      time a = time b \<and> price a \<noteq> price b \<longrightarrow>
      (\<exists>a' \<in> set (reconcile slots_from_network dom_slots).
       \<exists>b' \<in> set (reconcile slots_from_network dom_slots).
         slot_key a' = slot_key a \<and> slot_key b' = slot_key b \<and> a' \<noteq> b')"
  proof (intro ballI impI)
    fix a b
    assume a: "a \<in> set (slots_from_network @ dom_slots)"
      and b: "b \<in> set (slots_from_network @ dom_slots)"
      and ab: "time a = time b \<and> price a \<noteq> price b"
    from a have "slot_key a \<in> slot_key ` set (reconcile slots_from_network dom_slots)"
      unfolding reconcile_set_keys by (rule imageI)
    then obtain a' where a': "a' \<in> set (reconcile slots_from_network dom_slots)" "slot_key a' = slot_key a"
      by auto
    from b have "slot_key b \<in> slot_key ` set (reconcile slots_from_network dom_slots)"
      unfolding reconcile_set_keys by (rule imageI)
    then obtain b' where b': "b' \<in> set (reconcile slots_from_network dom_slots)" "slot_key b' = slot_key b"
      by auto
    from ab have "slot_key a \<noteq> slot_key b"
      by (simp add: slot_key_def)
    with a' b' have "a' \<noteq> b'" by auto
    with a' b' show "\<exists>a' \<in> set (reconcile slots_from_network dom_slots).
       \<exists>b' \<in> set (reconcile slots_from_network dom_slots).
         slot_key a' = slot_key a \<and> slot_key b' = slot_key b \<and> a' \<noteq> b'"
      by blast
  qed
qed


text \<open>An instance: one network candidate, a DOM candidate with its key, and a DOM candidate
  at the same time with another price.\<close>

theorem reconcile_last_write_governs_witness:
  "map (\<lambda>s. (time s, price s, source s)) (reconcile
     [\<lparr>date = ''2024-06-01'', time = ''10:30 AM'', price = ''$42.00'', source = ''network-json''\<rparr>]
     [\<lparr>date = ''2024-06-01'', time = ''10:30 AM'', price = ''$42.00'', source = ''dom''\<rparr>,
      \<lparr>date = ''2024-06-01'', time = ''10:30 AM'', price = ''$45.00'', source = ''dom''\<rparr>])
     = [(''10:30 AM'', ''$42.00'', ''dom''), (''10:30 AM'', ''$45.00'', ''dom'')] \<and>
   (\<exists>r. filter (\<lambda>s. slot_key s = (''10:30 AM'', ''$42.00'')) (reconcile
     [\<lparr>date = ''2024-06-01'', time = ''10:30 AM'', price = ''$42.00'', source = ''network-json''\<rparr>]
     [\<lparr>date = ''2024-06-01'', time = ''10:30 AM'', price = ''$42.00'', source = ''dom''\<rparr>,
      \<lparr>date = ''2024-06-01'', time = ''10:30 AM'', price = ''$45.00'', source = ''dom''\<rparr>]) = [r]
      \<and> source r = ''dom'')"
proof -
  let ?n = "\<lparr>date = ''2024-06-01'', time = ''10:30 AM'', price = ''$42.00'', source = ''network-json''\<rparr>"
  let ?d = "\<lparr>date = ''2024-06-01'', time = ''10:30 AM'', price = ''$42.00'', source = ''dom''\<rparr>"
  let ?e = "\<lparr>date = ''2024-06-01'', time = ''10:30 AM'', price = ''$45.00'', source = ''dom''\<rparr>"
  have h1: "?n \<in> set [?n]" by simp
  have h2: "?d \<in> set [?d, ?e]" by simp
  have h3: "slot_key ?n = slot_key ?d" by (simp add: slot_key_def)
  have h4: "\<forall>s \<in> set [?d, ?e]. source s = ''dom''" by simp
  have k: "slot_key ?d = (''10:30 AM'', ''$42.00'')" by (simp add: slot_key_def)
  have ex: "map (\<lambda>s. (time s, price s, source s)) (reconcile [?n] [?d, ?e])
     = [(''10:30 AM'', ''$42.00'', ''dom''), (''10:30 AM'', ''$45.00'', ''dom'')]"
    by code_simp
  from reconcile_last_write_governs [OF h1 h2 h3 h4]
  have "\<exists>r. filter (\<lambda>s. slot_key s = slot_key ?d) (reconcile [?n] [?d, ?e]) = [r] \<and> source r = ''dom''"
    by blast
  with ex show ?thesis unfolding k by blast
qed

section \<open>Properties of the JSON scanner\<close>

lemma fold_append_concat:
  assumes "\<And>x acc. x \<in> set xs \<Longrightarrow> f x acc = acc @ f x []"
  shows "fold f xs acc = acc @ concat (map (\<lambda>x. f x []) xs)"
  using assms
proof (induction xs arbitrary: acc)
  case Nil
  show ?case by simp
next
  case (Cons x xs)
  have step: "f y acc' = acc' @ f y []" if "y \<in> set xs" for y acc'
    using that Cons.prems [of y acc'] by simp
  have "fold f xs (f x acc) = f x acc @ concat (map (\<lambda>x. f x []) xs)"
    using step by (rule Cons.IH)
  moreover have "f x acc = acc @ f x []"
    using Cons.prems [of x acc] by simp
  ultimately have "fold f xs (f x acc) = (acc @ f x []) @ concat (map (\<lambda>x. f x []) xs)"
    by (simp only:)
  then show ?case by simp
qed

lemma collect_append:
  "collect_slots_from_json fr v out d = out @ collect_slots_from_json fr v [] d"
proof (induction fr v out d rule: collect_slots_from_json.induct)
  case (1 fr payload out d)
  have "fold (\<lambda>item out'. collect_slots_from_json fr item out' d) payload acc =
      acc @ concat (map (\<lambda>item. collect_slots_from_json fr item [] d) payload)" for acc
    by (rule fold_append_concat) (rule "1.IH")
  from this [of out] this [of "[]"] show ?case by simp
next
  case (2 fr payload out d)
  have "fold (\<lambda>v out'. collect_slots_from_json fr v out' d) (dict_values payload) acc =
      acc @ concat (map (\<lambda>v. collect_slots_from_json fr v [] d) (dict_values payload))" for acc
    by (rule fold_append_concat) (rule "2.IH")
  then show ?case by (simp split: option.splits)
qed simp_all

lemma collect_JArr:
  "collect_slots_from_json fr (JArr items) [] d =
     concat (map (\<lambda>item. collect_slots_from_json fr item [] d) items)"
proof -
  have "fold (\<lambda>item out'. collect_slots_from_json fr item out' d) items [] =
      [] @ concat (map (\<lambda>item. collect_slots_from_json fr item [] d) items)"
    by (rule fold_append_concat) (rule collect_append)
  then show ?thesis by simp
qed

lemma collect_JObj:
  "collect_slots_from_json fr (JObj items) [] d =
     (case mapping_slot fr items d of Some slot \<Rightarrow> [slot] | None \<Rightarrow> []) @
     concat (map (\<lambda>v. collect_slots_from_json fr v [] d) (dict_values items))"
proof -
  have "fold (\<lambda>v out'. collect_slots_from_json fr v out' d) (dict_values items) acc =
      acc @ concat (map (\<lambda>v. collect_slots_from_json fr v [] d) (dict_values items))" for acc
    by (rule fold_append_concat) (rule collect_append)
  then show ?thesis by (simp split: option.splits)
qed


declare collect_slots_from_json.simps(1,2) [simp del]

lemma child_slots_subset:
  assumes "child v w"
  shows "set (collect_slots_from_json fr w [] d) \<subseteq> set (collect_slots_from_json fr v [] d)"
  using assms
proof cases
  case (element items)
  then show ?thesis by (auto simp: collect_JArr)
next
  case (mapping_value items)
  then show ?thesis by (auto simp: collect_JObj)
qed

lemma nested_slots_subset:
  assumes "child\<^sup>*\<^sup>* v w"
  shows "set (collect_slots_from_json fr w [] d) \<subseteq> set (collect_slots_from_json fr v [] d)"
  using assms
proof (induction rule: rtranclp_induct)
  case base
  show ?case by simp
next
  case (step y z)
  from child_slots_subset [OF step.hyps(2)] step.IH show ?case
    by (rule subset_trans)
qed

lemma mapping_slot_emitted:
  "mapping_slot fr m d = Some slot \<Longrightarrow> slot \<in> set (collect_slots_from_json fr (JObj m) [] d)"
  by (simp add: collect_JObj)

subsection \<open>Claim C4: the traversal is exhaustive\<close>

text \<open>
  C4. The scanner goes into every element of a sequence and every value of a mapping,
  whether or not the mapping itself gave a slot: the slots of a child are among the slots of
  its parent, and a mapping nested at any depth that qualifies has its slot in the output.
\<close>

theorem scanner_descends_into_every_child:
  "(\<forall>w. child v w \<longrightarrow>
      set (collect_slots_from_json float_repr w [] requested_date)
        \<subseteq> set (collect_slots_from_json float_repr v out requested_date)) \<and>
   (\<forall>m slot. child\<^sup>*\<^sup>* v (JObj m) \<and> mapping_slot float_repr m requested_date = Some slot \<longrightarrow>
      slot \<in> set (collect_slots_from_json float_repr v out requested_date))"
proof (intro conjI allI impI)
  fix w
  assume "child v w"
  then have "set (collect_slots_from_json float_repr w [] requested_date)
      \<subseteq> set (collect_slots_from_json float_repr v [] requested_date)"
    by (rule child_slots_subset)
  then show "set (collect_slots_from_json float_repr w [] requested_date)
      \<subseteq> set (collect_slots_from_json float_repr v out requested_date)"
    using collect_append [of float_repr v out requested_date] by auto
next
  fix m slot
  assume a: "child\<^sup>*\<^sup>* v (JObj m) \<and> mapping_slot float_repr m requested_date = Some slot"
  then have "slot \<in> set (collect_slots_from_json float_repr (JObj m) [] requested_date)"
    by (simp add: mapping_slot_emitted)
  moreover from a have "set (collect_slots_from_json float_repr (JObj m) [] requested_date)
      \<subseteq> set (collect_slots_from_json float_repr v [] requested_date)"
    by (simp add: nested_slots_subset)
  ultimately show "slot \<in> set (collect_slots_from_json float_repr v out requested_date)"
    using collect_append [of float_repr v out requested_date] by auto
qed

text \<open>An instance of C4: a qualifying mapping inside a sequence inside a mapping that does
  not qualify.\<close>

theorem scanner_descends_into_every_child_witness:
  "child (JObj [(''data'', JArr [JObj [(''time'', JStr ''10:30''), (''price'', JStr ''$5'')]])])
         (JArr [JObj [(''time'', JStr ''10:30''), (''price'', JStr ''$5'')]] :: unit json) \<and>
   child\<^sup>*\<^sup>* (JObj [(''data'', JArr [JObj [(''time'', JStr ''10:30''), (''price'', JStr ''$5'')]])])
         (JObj [(''time'', JStr ''10:30''), (''price'', JStr ''$5'')] :: unit json) \<and>
   mapping_slot (\<lambda>x :: unit. [])
      [(''data'', JArr [JObj [(''time'', JStr ''10:30''), (''price'', JStr ''$5'')]])] ''2024-06-01'' = None \<and>
   mapping_slot (\<lambda>x :: unit. []) [(''time'', JStr ''10:30''), (''price'', JStr ''$5'')] ''2024-06-01''
      = Some \<lparr>date = ''2024-06-01'', time = ''10:30'', price = ''$5'', source = ''network-json''\<rparr> \<and>
   \<lparr>date = ''2024-06-01'', time = ''10:30'', price = ''$5'', source = ''network-json''\<rparr>
     \<in> set (collect_slots_from_json (\<lambda>x :: unit. [])
          (JObj [(''data'', JArr [JObj [(''time'', JStr ''10:30''), (''price'', JStr ''$5'')]])]) []
          ''2024-06-01'')"
proof -
  let ?m = "[(''time'', JStr ''10:30''), (''price'', JStr ''$5'')] :: (string \<times> unit json) list"
  let ?a = "JArr [JObj ?m]"
  let ?v = "JObj [(''data'', ?a)]"
  let ?s = "\<lparr>date = ''2024-06-01'', time = ''10:30'', price = ''$5'', source = ''network-json''\<rparr>"
  have c1: "child ?v ?a"
    by (rule child.mapping_value) (simp add: dict_values_def)
  have c2: "child ?a (JObj ?m)"
    by (rule child.element) simp
  from c1 c2 have n: "child\<^sup>*\<^sup>* ?v (JObj ?m)"
    by (rule converse_rtranclp_into_rtranclp [OF _ r_into_rtranclp])
  have outer: "mapping_slot (\<lambda>x :: unit. []) [(''data'', ?a)] ''2024-06-01'' = None"
    by code_simp
  have inner: "mapping_slot (\<lambda>x :: unit. []) ?m ''2024-06-01'' = Some ?s"
    by code_simp
  from scanner_descends_into_every_child [of ?v "\<lambda>x :: unit. []" "''2024-06-01''" "[]"]
  have "\<forall>m slot. child\<^sup>*\<^sup>* ?v (JObj m) \<and> mapping_slot (\<lambda>x :: unit. []) m ''2024-06-01'' = Some slot \<longrightarrow>
      slot \<in> set (collect_slots_from_json (\<lambda>x :: unit. []) ?v [] ''2024-06-01'')"
    by (rule conjunct2)
  then have "child\<^sup>*\<^sup>* ?v (JObj ?m) \<and> mapping_slot (\<lambda>x :: unit. []) ?m ''2024-06-01'' = Some ?s \<longrightarrow>
      ?s \<in> set (collect_slots_from_json (\<lambda>x :: unit. []) ?v [] ''2024-06-01'')"
    by (elim allE)
  with n inner have "?s \<in> set (collect_slots_from_json (\<lambda>x :: unit. []) ?v [] ''2024-06-01'')"
    by (elim impE) (rule conjI)
  with c1 n outer inner show ?thesis
    by (intro conjI)
qed

subsection \<open>Trimming and the time pattern\<close>

lemma last_dropWhile: "dropWhile P xs \<noteq> [] \<Longrightarrow> last (dropWhile P xs) = last xs"
  by (induction xs) (auto split: if_splits)

lemma dropWhile_rev_id: "w = [] \<or> \<not> P (last w) \<Longrightarrow> dropWhile P (rev w) = rev w"
  by (cases w rule: rev_cases) auto

lemma strip_ends:
  "strip s = [] \<or> (\<not> is_space (hd (strip s)) \<and> \<not> is_space (last (strip s)))"
proof (cases "strip s = []")
  case True
  then show ?thesis by simp
next
  case False
  let ?u = "dropWhile is_space s"
  let ?w = "dropWhile is_space (rev ?u)"
  from False have w: "?w \<noteq> []" by (simp add: strip_def)
  have "?w = []" if "?u = []"
    using that by (simp only: rev.simps dropWhile.simps)
  with w have u: "?u \<noteq> []" by blast
  from w have "\<not> is_space (hd ?w)" by (rule hd_dropWhile)
  with w have l: "\<not> is_space (last (strip s))" by (simp add: strip_def last_rev)
  from w have "last ?w = last (rev ?u)" by (rule last_dropWhile)
  with u have "last ?w = hd ?u" by (simp add: last_rev)
  moreover from u have "\<not> is_space (hd ?u)" by (rule hd_dropWhile)
  ultimately have "\<not> is_space (hd (strip s))" using w by (simp add: strip_def hd_rev)
  with l show ?thesis by simp
qed

lemma strip_idem: "strip (strip s) = strip s"
proof (cases "strip s = []")
  case True
  have "strip [] = []" by (simp add: strip_def)
  with True show ?thesis by (simp only:)
next
  case False
  with strip_ends [of s] have h: "\<not> is_space (hd (strip s))" and l: "\<not> is_space (last (strip s))"
    by auto
  from False h have "dropWhile is_space (strip s) = strip s"
    by (cases "strip s") auto
  moreover from l have "dropWhile is_space (rev (strip s)) = rev (strip s)"
    by (simp add: dropWhile_rev_id)
  ultimately show ?thesis
    by (simp add: strip_def [of "strip s"])
qed

lemma colon_two_digits_shape:
  assumes "colon_two_digits (drop n s)"
  shows "\<exists>post. s = take n s @ CHR '':'' # take 2 (drop (Suc n) s) @ post \<and>
           length (take 2 (drop (Suc n) s)) = 2 \<and> list_all is_digit (take 2 (drop (Suc n) s))"
proof -
  from assms obtain d e rest where r: "drop n s = CHR '':'' # d # e # rest"
    and de: "is_digit d" "is_digit e"
    by (auto simp: colon_two_digits_def split: list.splits)
  have "drop (Suc n) s = tl (drop n s)"
    by (simp add: drop_Suc tl_drop)
  with r have t: "take 2 (drop (Suc n) s) = [d, e]"
    by simp
  have "s = take n s @ drop n s"
    by simp
  with r have "s = take n s @ CHR '':'' # [d, e] @ rest"
    by simp
  with t de show ?thesis
    by (intro exI [of _ rest]) simp
qed

lemma match_hhmm_shape:
  assumes "match_hhmm s = Some m"
  shows "\<exists>h post. s = h @ CHR '':'' # m @ post \<and> h \<noteq> [] \<and> length h \<le> 2 \<and>
           list_all is_digit h \<and> length m = 2 \<and> list_all is_digit m"
proof (cases "length s \<ge> 2 \<and> list_all is_digit (take 2 s) \<and> colon_two_digits (drop 2 s)")
  case True
  with assms have m: "m = take 2 (drop (Suc 2) s)"
    by (simp add: match_hhmm_def)
  from True colon_two_digits_shape [of 2 s] obtain post where
    "s = take 2 s @ CHR '':'' # m @ post \<and> length m = 2 \<and> list_all is_digit m"
    unfolding m by blast
  moreover from True have "take 2 s \<noteq> [] \<and> length (take 2 s) \<le> 2 \<and> list_all is_digit (take 2 s)"
    by auto
  ultimately show ?thesis by blast
next
  case False
  with assms have c: "length s \<ge> 1 \<and> list_all is_digit (take 1 s) \<and> colon_two_digits (drop 1 s)"
    and m0: "m = take 2 (drop 2 s)"
    by (auto simp: match_hhmm_def split: if_splits)
  have "drop (Suc 1) s = drop 2 s"
    by (simp add: numeral_2_eq_2)
  with m0 have m: "m = take 2 (drop (Suc 1) s)"
    by simp
  from c colon_two_digits_shape [of 1 s] obtain post where
    "s = take 1 s @ CHR '':'' # m @ post \<and> length m = 2 \<and> list_all is_digit m"
    unfolding m by blast
  moreover from c have "take 1 s \<noteq> [] \<and> length (take 1 s) \<le> 2 \<and> list_all is_digit (take 1 s)"
    by auto
  ultimately show ?thesis by blast
qed

lemma search_hhmm_shape:
  "search_hhmm t = Some m \<Longrightarrow>
   \<exists>pre h post. t = pre @ h @ CHR '':'' # m @ post \<and> h \<noteq> [] \<and> length h \<le> 2 \<and>
     list_all is_digit h \<and> length m = 2 \<and> list_all is_digit m"
proof (induction t)
  case Nil
  then show ?case by simp
next
  case (Cons c cs)
  show ?case
  proof (cases "match_hhmm (c # cs)")
    case None
    with Cons.prems have "search_hhmm cs = Some m" by simp
    from Cons.IH [OF this] obtain pre h post where
      "cs = pre @ h @ CHR '':'' # m @ post \<and> h \<noteq> [] \<and> length h \<le> 2 \<and>
        list_all is_digit h \<and> length m = 2 \<and> list_all is_digit m" by blast
    then have "c # cs = (c # pre) @ h @ CHR '':'' # m @ post \<and> h \<noteq> [] \<and> length h \<le> 2 \<and>
        list_all is_digit h \<and> length m = 2 \<and> list_all is_digit m" by simp
    then show ?thesis by blast
  next
    case (Some m')
    with Cons.prems have "match_hhmm (c # cs) = Some m" by simp
    from match_hhmm_shape [OF this] obtain h post where
      "c # cs = [] @ h @ CHR '':'' # m @ post \<and> h \<noteq> [] \<and> length h \<le> 2 \<and>
        list_all is_digit h \<and> length m = 2 \<and> list_all is_digit m" by auto
    then show ?thesis by blast
  qed
qed

lemma mapping_slot_unfold:
  "mapping_slot fr payload d =
     (if keys_found payload
      then (case search_hhmm (raw_time fr payload) of
              None \<Rightarrow> None
            | Some minute \<Rightarrow>
                if int_of_digits minute mod 10 = 0 \<and> raw_price fr payload \<noteq> []
                then Some \<lparr>date = d, time = raw_time fr payload, price = raw_price fr payload,
                           source = ''network-json''\<rparr>
                else None)
      else None)"
  unfolding mapping_slot_def raw_time_def raw_price_def keys_found_def Let_def ..


lemma mapping_slot_Some:
  assumes "mapping_slot fr payload d = Some s"
  shows "\<exists>m. search_hhmm (raw_time fr payload) = Some m \<and> int_of_digits m mod 10 = 0 \<and>
           raw_price fr payload \<noteq> [] \<and>
           truthy (first_alias (lower_keys payload) time_aliases) \<and>
           truthy (first_alias (lower_keys payload) price_aliases) \<and>
           s = \<lparr>date = d, time = raw_time fr payload, price = raw_price fr payload,
                 source = ''network-json''\<rparr>"
proof (cases "keys_found payload")
  case False
  then have "mapping_slot fr payload d = None"
    by (simp add: mapping_slot_unfold)
  with assms show ?thesis by simp
next
  case keys: True
  show ?thesis
  proof (cases "search_hhmm (raw_time fr payload)")
    case None
    with keys have "mapping_slot fr payload d = None"
      by (simp add: mapping_slot_unfold)
    with assms show ?thesis by simp
  next
    case (Some m)
    show ?thesis
    proof (cases "int_of_digits m mod 10 = 0 \<and> raw_price fr payload \<noteq> []")
      case False
      with keys Some have "mapping_slot fr payload d = None"
        by (simp add: mapping_slot_unfold)
      with assms show ?thesis by simp
    next
      case True
      with keys Some have "mapping_slot fr payload d =
          Some \<lparr>date = d, time = raw_time fr payload, price = raw_price fr payload,
                 source = ''network-json''\<rparr>"
        by (simp add: mapping_slot_unfold)
      with assms have s: "s = \<lparr>date = d, time = raw_time fr payload, price = raw_price fr payload,
                 source = ''network-json''\<rparr>"
        by (simp only: option.inject)
      from keys have k1: "truthy (first_alias (lower_keys payload) time_aliases)"
        and k2: "truthy (first_alias (lower_keys payload) price_aliases)"
        unfolding keys_found_def by (rule conjunct1, rule conjunct2)
      from True have t1: "int_of_digits m mod 10 = 0" and t2: "raw_price fr payload \<noteq> []"
        by (rule conjunct1, rule conjunct2)
      show ?thesis
        by (rule exI [of _ m]) (intro conjI Some t1 t2 k1 k2 s)
    qed
  qed
qed

lemma mapping_slot_properties:
  assumes "mapping_slot fr payload d = Some s"
  shows "has_ten_minute_time (time s) \<and> strip (price s) \<noteq> [] \<and> source s = ''network-json''"
proof -
  from mapping_slot_Some [OF assms] obtain m where
    m1: "search_hhmm (raw_time fr payload) = Some m" and m2: "int_of_digits m mod 10 = 0"
    and m3: "raw_price fr payload \<noteq> []"
    and s: "s = \<lparr>date = d, time = raw_time fr payload, price = raw_price fr payload,
                 source = ''network-json''\<rparr>"
    by (elim exE conjE)
  from s have ts: "time s = raw_time fr payload" and ps: "price s = raw_price fr payload"
    and ss: "source s = ''network-json''"
    by simp_all
  from search_hhmm_shape [OF m1] obtain pre h post where
    "raw_time fr payload = pre @ h @ CHR '':'' # m @ post \<and> h \<noteq> [] \<and> length h \<le> 2 \<and>
      list_all is_digit h \<and> length m = 2 \<and> list_all is_digit m"
    by (elim exE)
  with m2 have "has_ten_minute_time (raw_time fr payload)"
    unfolding has_ten_minute_time_def by (intro exI [of _ pre] exI [of _ h] exI [of _ m] exI [of _ post]) simp
  moreover have "strip (raw_price fr payload) = raw_price fr payload"
    unfolding raw_price_def by (rule strip_idem)
  ultimately show ?thesis
    using m3 by (simp only: ts ps ss) simp
qed

lemma collect_slots_properties:
  "s \<in> set (collect_slots_from_json fr v [] d) \<Longrightarrow>
   has_ten_minute_time (time s) \<and> strip (price s) \<noteq> [] \<and> source s = ''network-json''"
proof (induction v)
  case (JArr items)
  then show ?case
    unfolding collect_JArr by (simp only: set_concat set_map) blast
next
  case (JObj items)
  from JObj.prems consider
    (own) "mapping_slot fr items d = Some s"
    | (sub) v where "v \<in> set (dict_values items)" "s \<in> set (collect_slots_from_json fr v [] d)"
    unfolding collect_JObj by (auto split: option.splits)
  then show ?case
  proof cases
    case own
    then show ?thesis by (rule mapping_slot_properties)
  next
    case sub
    from sub(1) obtain k where "(k, v) \<in> set items"
      by (auto simp: dict_values_def)
    then have "v \<in> Basic_BNFs.snds (k, v)" "(k, v) \<in> set items"
      by simp_all
    from JObj.IH [OF this(2) this(1) sub(2)] show ?thesis .
  qed
qed simp_all

subsection \<open>Claim C3: what every slot of the JSON scanner satisfies\<close>

text \<open>
  C3. Every slot that the JSON scanner appends has a time with an \<open>HH:MM\<close>-shaped part
  whose minutes are a multiple of 10, a price that is not empty after trimming, and the
  source tag \<open>network-json\<close>.
\<close>

theorem json_slots_ten_minute_and_priced:
  "\<exists>new. collect_slots_from_json float_repr v out requested_date = out @ new \<and>
     (\<forall>s \<in> set new. has_ten_minute_time (time s) \<and> strip (price s) \<noteq> [] \<and>
        source s = ''network-json'')"
proof (rule exI [of _ "collect_slots_from_json float_repr v [] requested_date"], rule conjI)
  show "collect_slots_from_json float_repr v out requested_date =
      out @ collect_slots_from_json float_repr v [] requested_date"
    by (rule collect_append)
next
  show "\<forall>s \<in> set (collect_slots_from_json float_repr v [] requested_date).
      has_ten_minute_time (time s) \<and> strip (price s) \<noteq> [] \<and> source s = ''network-json''"
  proof
    fix s
    assume "s \<in> set (collect_slots_from_json float_repr v [] requested_date)"
    then show "has_ten_minute_time (time s) \<and> strip (price s) \<noteq> [] \<and> source s = ''network-json''"
      by (rule collect_slots_properties)
  qed
qed

text \<open>An instance: of two mappings, the one at minute 07 gives nothing and the one at
  minute 20 gives its slot.\<close>

theorem json_slots_ten_minute_and_priced_witness:
  "collect_slots_from_json (\<lambda>x :: unit. [])
     (JArr [JObj [(''time'', JStr ''10:07''), (''price'', JStr ''$10'')],
            JObj [(''Time'', JStr '' Tour 14:20 ''), (''Price'', JInt 55)]]) [] ''2024-06-01''
     = [\<lparr>date = ''2024-06-01'', time = ''Tour 14:20'', price = ''55'', source = ''network-json''\<rparr>] \<and>
   has_ten_minute_time ''Tour 14:20'' \<and> strip ''55'' \<noteq> []"
proof -
  let ?v = "JArr [JObj [(''time'', JStr ''10:07''), (''price'', JStr ''$10'')],
            JObj [(''Time'', JStr '' Tour 14:20 ''), (''Price'', JInt 55)]] :: unit json"
  let ?s = "\<lparr>date = ''2024-06-01'', time = ''Tour 14:20'', price = ''55'', source = ''network-json''\<rparr>"
  have ex: "collect_slots_from_json (\<lambda>x :: unit. []) ?v [] ''2024-06-01'' = [?s]"
    by code_simp
  from json_slots_ten_minute_and_priced [of "\<lambda>x :: unit. []" ?v "[]" "''2024-06-01''"]
  obtain new where n: "collect_slots_from_json (\<lambda>x :: unit. []) ?v [] ''2024-06-01'' = [] @ new"
    and p: "\<forall>s \<in> set new. has_ten_minute_time (time s) \<and> strip (price s) \<noteq> [] \<and>
        source s = ''network-json''"
    by (elim exE conjE)
  from n ex have "new = [?s]"
    by (simp only: append_Nil)
  then have "?s \<in> set new"
    by (simp only: list.set insertI1)
  with p have "has_ten_minute_time (time ?s) \<and> strip (price ?s) \<noteq> [] \<and> source ?s = ''network-json''"
    by (rule bspec)
  then have "has_ten_minute_time ''Tour 14:20'' \<and> strip ''55'' \<noteq> []"
    by simp
  with ex show ?thesis
    by (rule conjI [OF _ _])
qed


subsection \<open>The index of lower-case keys\<close>

lemma lower_keys_snoc:
  "lower_keys (payload @ [(k, v)]) = (lower_keys payload)(lower k \<mapsto> k)"
  by (simp add: lower_keys_def)

lemma lower_keys_lookup:
  "lower_keys payload a =
     (if filter (\<lambda>k. lower k = a) (map fst payload) = [] then None
      else Some (last (filter (\<lambda>k. lower k = a) (map fst payload))))"
proof (induction payload rule: rev_induct)
  case Nil
  show ?case by (simp add: lower_keys_def)
next
  case (snoc p payload)
  obtain k v where p: "p = (k, v)" by (cases p)
  show ?case
  proof (cases "lower k = a")
    case True
    then show ?thesis unfolding p lower_keys_snoc by simp
  next
    case False
    then have "a \<noteq> lower k" by blast
    with False show ?thesis unfolding p lower_keys_snoc using snoc.IH by simp
  qed
qed

lemma lower_keys_dom: "lower_keys payload a \<noteq> None \<longleftrightarrow> a \<in> lower ` fst ` set payload"
proof -
  have "filter (\<lambda>k. lower k = a) (map fst payload) \<noteq> [] \<longleftrightarrow> a \<in> lower ` fst ` set payload"
    by (auto simp: filter_empty_conv)
  then show ?thesis
    unfolding lower_keys_lookup by (cases "filter (\<lambda>k. lower k = a) (map fst payload) = []") simp_all
qed

lemma first_alias_filter:
  "first_alias keys aliases =
     (case filter (\<lambda>a. keys a \<noteq> None) aliases of [] \<Rightarrow> None | a # _ \<Rightarrow> keys a)"
  by (induction aliases) (auto split: option.splits)

lemma first_alias_lower_keys:
  "first_alias (lower_keys payload) aliases =
     (case filter (\<lambda>a. a \<in> lower ` fst ` set payload) aliases of
        [] \<Rightarrow> None
      | a # _ \<Rightarrow> Some (last (filter (\<lambda>k. lower k = a) (map fst payload))))"
proof -
  let ?present = "filter (\<lambda>a. a \<in> lower ` fst ` set payload) aliases"
  have f: "filter (\<lambda>a. lower_keys payload a \<noteq> None) aliases = ?present"
    by (simp only: lower_keys_dom)
  show ?thesis
  proof (cases ?present)
    case Nil
    with f show ?thesis by (simp add: first_alias_filter)
  next
    case (Cons a rest)
    then have "a \<in> set ?present" by simp
    then have "a \<in> lower ` fst ` set payload" by simp
    then have "filter (\<lambda>k. lower k = a) (map fst payload) \<noteq> []"
      by (auto simp: filter_empty_conv)
    then have "lower_keys payload a = Some (last (filter (\<lambda>k. lower k = a) (map fst payload)))"
      unfolding lower_keys_lookup by simp
    with f Cons show ?thesis by (simp add: first_alias_filter)
  qed
qed

section \<open>Properties of the DOM scanner\<close>

subsection \<open>Claim C2: a read that fails\<close>

text \<open>
  C2 says that a failing read of a snippet, or of its parent, counts as no candidate and
  the sweep goes on. In \<open>_collect_slots_from_dom\<close> nothing catches the error of
  \<open>inner_text\<close>: with a second element whose read fails, the scanner returns the error and
  not the slots of the first and third elements, and so does \<open>scrape_top_of_rock\<close>; the same
  for a parent whose read fails. Without the failing element the two slots are returned.
\<close>

theorem dom_read_failure_aborts_sweep:
  "collect_slots_from_dom
     [\<lparr>inner_text = Inr ''10:30 AM - $42.00'', parent_inner_text = Inr ''10:30 AM - $42.00''\<rparr>,
      \<lparr>inner_text = Inl PlaywrightError, parent_inner_text = Inr []\<rparr>,
      \<lparr>inner_text = Inr ''10:40 AM - $42.00'', parent_inner_text = Inr ''10:40 AM - $42.00''\<rparr>]
     ''2024-06-01'' = Inl PlaywrightError \<and>
   collect_slots_from_dom
     [\<lparr>inner_text = Inr ''10:30 AM - $42.00'', parent_inner_text = Inr ''10:30 AM - $42.00''\<rparr>,
      \<lparr>inner_text = Inr ''10:40 AM'', parent_inner_text = Inl PlaywrightError\<rparr>]
     ''2024-06-01'' = Inl PlaywrightError \<and>
   collect_slots_from_dom
     [\<lparr>inner_text = Inr ''10:30 AM - $42.00'', parent_inner_text = Inr ''10:30 AM - $42.00''\<rparr>,
      \<lparr>inner_text = Inr ''10:40 AM - $42.00'', parent_inner_text = Inr ''10:40 AM - $42.00''\<rparr>]
     ''2024-06-01'' =
     Inr [\<lparr>date = ''2024-06-01'', time = ''10:30 AM'', price = ''$42.00'', source = ''dom''\<rparr>,
          \<lparr>date = ''2024-06-01'', time = ''10:40 AM'', price = ''$42.00'', source = ''dom''\<rparr>] \<and>
   scrape_top_of_rock (\<lambda>x :: unit. [])
     [JObj [(''time'', JStr ''10:30 AM''), (''price'', JStr ''$42.00'')]]
     [\<lparr>inner_text = Inr ''10:30 AM - $42.00'', parent_inner_text = Inr ''10:30 AM - $42.00''\<rparr>,
      \<lparr>inner_text = Inl PlaywrightError, parent_inner_text = Inr []\<rparr>,
      \<lparr>inner_text = Inr ''10:40 AM - $42.00'', parent_inner_text = Inr ''10:40 AM - $42.00''\<rparr>]
     ''2024-06-01'' = Inl PlaywrightError"
  by code_simp

subsection \<open>What one candidate gives, and the patterns\<close>

lemma scan_candidate_Some:
  assumes "scan_candidate d e = Inr (Some s)"
  shows "\<exists>raw tm pr. inner_text e = Inr raw \<and> search_time (strip raw) = Some tm \<and>
           ((parse_currency (strip raw) \<noteq> [] \<and> pr = parse_currency (strip raw)) \<or>
            (parse_currency (strip raw) = [] \<and>
             (\<exists>parent_text. parent_inner_text e = Inr parent_text \<and> pr = parse_currency parent_text))) \<and>
           pr \<noteq> [] \<and>
           s = \<lparr>date = d, time = collapse_double_space (upper tm), price = pr, source = ''dom''\<rparr>"
proof (cases "inner_text e")
  case (Inl err)
  then have "scan_candidate d e = Inl err" by (simp add: scan_candidate_def)
  with assms show ?thesis by simp
next
  case (Inr raw)
  let ?text = "strip raw"
  show ?thesis
  proof (cases "?text = [] \<or> length ?text > 200")
    case True
    with Inr have "scan_candidate d e = Inr None" by (simp add: scan_candidate_def)
    with assms show ?thesis by simp
  next
    case ok: False
    show ?thesis
    proof (cases "search_time ?text")
      case None
      with Inr ok have "scan_candidate d e = Inr None" by (simp add: scan_candidate_def)
      with assms show ?thesis by simp
    next
      case (Some tm)
      show ?thesis
      proof (cases "\<exists>x piece rest. split_colon tm = x # piece # rest")
        case False
        with Inr ok Some have "scan_candidate d e = Inl IndexError"
          by (simp add: scan_candidate_def Let_def split: list.splits)
        with assms show ?thesis by simp
      next
        case True
        then obtain x piece rest where sp: "split_colon tm = x # piece # rest" by (elim exE)
        show ?thesis
        proof (cases "int_of_digits (take 2 piece) mod 10 \<noteq> 0")
          case True
          with Inr ok Some sp have "scan_candidate d e = Inr None" by (simp add: scan_candidate_def)
          with assms show ?thesis by simp
        next
          case minutes: False
          show ?thesis
          proof (cases "parse_currency ?text \<noteq> []")
            case True
            with Inr ok Some sp minutes have "scan_candidate d e =
                Inr (Some \<lparr>date = d, time = collapse_double_space (upper tm),
                  price = parse_currency ?text, source = ''dom''\<rparr>)"
              by (simp add: scan_candidate_def)
            with assms have s: "s = \<lparr>date = d, time = collapse_double_space (upper tm),
                  price = parse_currency ?text, source = ''dom''\<rparr>"
              by (simp only: sum.inject option.inject)
            from True have p: "(parse_currency ?text \<noteq> [] \<and>
                  parse_currency ?text = parse_currency ?text) \<or>
                (parse_currency ?text = [] \<and>
                 (\<exists>parent_text. parent_inner_text e = Inr parent_text \<and>
                  parse_currency ?text = parse_currency parent_text))"
              by (intro disjI1 conjI refl)
            show ?thesis
              by (rule exI [of _ raw], rule exI [of _ tm], rule exI [of _ "parse_currency ?text"])
                (intro conjI Inr Some p True s)
          next
            case here: False
            show ?thesis
            proof (cases "parent_inner_text e")
              case (Inl err)
              with Inr ok Some sp minutes here have "scan_candidate d e = Inl err"
                by (simp add: scan_candidate_def)
              with assms show ?thesis by simp
            next
              case par: (Inr parent_text)
              show ?thesis
              proof (cases "parse_currency parent_text = []")
                case True
                with Inr ok Some sp minutes here par have "scan_candidate d e = Inr None"
                  by (simp add: scan_candidate_def)
                with assms show ?thesis by simp
              next
                case False
                with Inr ok Some sp minutes here par have "scan_candidate d e =
                    Inr (Some \<lparr>date = d, time = collapse_double_space (upper tm),
                      price = parse_currency parent_text, source = ''dom''\<rparr>)"
                  by (simp add: scan_candidate_def)
                with assms have s: "s = \<lparr>date = d, time = collapse_double_space (upper tm),
                      price = parse_currency parent_text, source = ''dom''\<rparr>"
                  by (simp only: sum.inject option.inject)
                from here have here': "parse_currency ?text = []"
                  by simp
                from par here' have p: "(parse_currency ?text \<noteq> [] \<and>
                      parse_currency parent_text = parse_currency ?text) \<or>
                    (parse_currency ?text = [] \<and>
                     (\<exists>pt. parent_inner_text e = Inr pt \<and>
                      parse_currency parent_text = parse_currency pt))"
                  by (intro disjI2 exI [of _ parent_text] conjI refl)
                show ?thesis
                  by (rule exI [of _ raw], rule exI [of _ tm], rule exI [of _ "parse_currency parent_text"])
                    (intro conjI Inr Some p False s)
              qed
            qed
          qed
        qed
      qed
    qed
  qed
qed





lemma fraction_cases:
  "fraction r = [] \<or> (\<exists>x y. fraction r = [CHR ''.'', x, y] \<and> is_digit x \<and> is_digit y)"
  by (auto simp: fraction_def split: list.splits)

lemma fraction_prefix: "prefix (fraction r) r"
  by (auto simp: fraction_def split: list.splits)

lemma match_currency_shape:
  assumes "match_currency s = Some m"
  shows "prefix m s \<and> currency_formatted m"
proof -
  from assms obtain c cs where s: "s = c # cs"
    by (cases s) (simp_all add: match_currency_def)
  let ?ws = "takeWhile is_space cs"
  let ?ds = "takeWhile is_digit (dropWhile is_space cs)"
  let ?r = "dropWhile is_digit (dropWhile is_space cs)"
  from assms s have c: "c = CHR ''$''" and ds: "?ds \<noteq> []" and m: "m = c # ?ws @ ?ds @ fraction ?r"
    by (simp_all add: match_currency_def Let_def split: if_splits)
  have "cs = ?ws @ ?ds @ ?r"
    by simp
  then have "s = c # ?ws @ ?ds @ ?r"
    using s by simp
  moreover from fraction_prefix [of ?r] obtain z where "?r = fraction ?r @ z"
    unfolding prefix_def by blast
  ultimately have "s = m @ z"
    using m by simp
  then have p: "prefix m s"
    unfolding prefix_def by blast
  have "list_all is_space ?ws" and "list_all is_digit ?ds"
    by (simp_all add: list_all_iff) (auto dest: set_takeWhileD)
  with c ds m fraction_cases [of ?r] have "currency_formatted m"
    unfolding currency_formatted_def
    by (intro exI [of _ ?ws] exI [of _ ?ds] exI [of _ "fraction ?r"]) simp
  with p show ?thesis ..
qed

lemma search_currency_shape:
  "search_currency t = Some m \<Longrightarrow> sublist m t \<and> currency_formatted m"
proof (induction t)
  case Nil
  then show ?case by simp
next
  case (Cons c cs)
  show ?case
  proof (cases "match_currency (c # cs)")
    case None
    with Cons.prems have "search_currency cs = Some m" by simp
    then have "sublist m cs \<and> currency_formatted m" by (rule Cons.IH)
    then show ?thesis by (simp add: sublist_Cons_right)
  next
    case (Some m')
    with Cons.prems have "match_currency (c # cs) = Some m" by simp
    then have "prefix m (c # cs) \<and> currency_formatted m" by (rule match_currency_shape)
    then show ?thesis by simp
  qed
qed

lemma parse_currency_nonempty:
  assumes "parse_currency t \<noteq> []"
  shows "\<exists>m. search_currency t = Some m \<and> parse_currency t = remove_spaces m \<and>
           sublist m t \<and> currency_formatted m"
proof (cases "search_currency t")
  case None
  then have "parse_currency t = []" by (simp add: parse_currency_def)
  with assms show ?thesis by simp
next
  case (Some m)
  then have "parse_currency t = remove_spaces m" by (simp add: parse_currency_def)
  with Some search_currency_shape [OF Some] show ?thesis by simp
qed

lemma remove_spaces_id: "CHR '' '' \<notin> set m \<Longrightarrow> remove_spaces m = m"
  by (auto simp: remove_spaces_def filter_id_conv)

subsection \<open>Claim C10: the time string of a slot\<close>





subsection \<open>Claim C8: the price string of a slot\<close>

text \<open>
  C8 as stated has the price stored exactly as it appears in the source. For the snippet
  \<open>10:30 AM $ 42.00\<close> the DOM scanner stores \<open>$42.00\<close>, which is not a part of the snippet:
  \<open>_parse_currency\<close> removes the space.
\<close>

theorem price_not_source_substring_counterexample:
  "collect_slots_from_dom
     [\<lparr>inner_text = Inr ''10:30 AM $ 42.00'', parent_inner_text = Inr ''10:30 AM $ 42.00''\<rparr>]
     ''2024-06-01'' =
     Inr [\<lparr>date = ''2024-06-01'', time = ''10:30 AM'', price = ''$42.00'', source = ''dom''\<rparr>] \<and>
   \<not> sublist ''$42.00'' ''10:30 AM $ 42.00''"
  by code_simp

lemma remove_spaces_currency: "currency_formatted m \<Longrightarrow> remove_spaces m \<noteq> []"
  by (auto simp: currency_formatted_def remove_spaces_def)

lemma parse_currency_empty_iff: "parse_currency t = [] \<longleftrightarrow> search_currency t = None"
proof (cases "search_currency t")
  case None
  then show ?thesis by (simp add: parse_currency_def)
next
  case (Some m)
  from search_currency_shape [OF Some] have "remove_spaces m \<noteq> []"
    by (simp add: remove_spaces_currency)
  with Some show ?thesis by (simp add: parse_currency_def)
qed

text \<open>
  C8, amended. The price of a DOM slot is the first currency match of the trimmed snippet
  when the snippet has one, and only otherwise the first currency match of the parent's
  text; in both cases without its space characters, so that it is that part of the source
  itself when the match has no space. The price of a JSON slot is the trimmed string of the
  price value, whatever its format. No price is converted to a number.
\<close>
theorem price_is_currency_match_without_spaces_or_trimmed_value:
  "(\<forall>s. scan_candidate requested_date e = Inr (Some s) \<longrightarrow>
      (\<exists>raw src m. inner_text e = Inr raw \<and>
         (if search_currency (strip raw) \<noteq> None then src = strip raw
          else parent_inner_text e = Inr src) \<and>
         search_currency src = Some m \<and> sublist m src \<and> currency_formatted m \<and>
         price s = remove_spaces m \<and> (CHR '' '' \<notin> set m \<longrightarrow> price s = m))) \<and>
   (\<forall>s. mapping_slot float_repr payload requested_date = Some s \<longrightarrow>
      price s = strip (py_str float_repr
                  (dict_get payload (the (first_alias (lower_keys payload) price_aliases)) (JStr []))))"
proof (intro conjI allI impI)
  fix s
  assume "scan_candidate requested_date e = Inr (Some s)"
  from scan_candidate_Some [OF this] obtain raw tm pr where
    r: "inner_text e = Inr raw"
    and pr: "(parse_currency (strip raw) \<noteq> [] \<and> pr = parse_currency (strip raw)) \<or>
            (parse_currency (strip raw) = [] \<and>
             (\<exists>parent_text. parent_inner_text e = Inr parent_text \<and> pr = parse_currency parent_text))"
    and ne: "pr \<noteq> []"
    and s: "s = \<lparr>date = requested_date, time = collapse_double_space (upper tm), price = pr,
                 source = ''dom''\<rparr>"
    by (elim exE conjE)
  from s have ps: "price s = pr" by simp
  from pr obtain src where
    src: "if search_currency (strip raw) \<noteq> None then src = strip raw
          else parent_inner_text e = Inr src"
    and p: "pr = parse_currency src"
  proof (elim disjE conjE exE)
    assume "parse_currency (strip raw) \<noteq> []" and "pr = parse_currency (strip raw)"
    then show ?thesis
      by (intro that [of "strip raw"]) (simp_all add: parse_currency_empty_iff)
  next
    fix parent_text
    assume "parse_currency (strip raw) = []" and "parent_inner_text e = Inr parent_text"
      and "pr = parse_currency parent_text"
    then show ?thesis
      by (intro that [of parent_text]) (simp_all add: parse_currency_empty_iff)
  qed
  from ne p have "parse_currency src \<noteq> []" by simp
  from parse_currency_nonempty [OF this] obtain m where
    m: "search_currency src = Some m" "parse_currency src = remove_spaces m"
      "sublist m src" "currency_formatted m"
    by (elim exE conjE)
  from ps p m(2) have pm: "price s = remove_spaces m" by simp
  then have "CHR '' '' \<notin> set m \<longrightarrow> price s = m"
    by (simp add: remove_spaces_id)
  with r src m pm show "\<exists>raw src m. inner_text e = Inr raw \<and>
         (if search_currency (strip raw) \<noteq> None then src = strip raw
          else parent_inner_text e = Inr src) \<and>
         search_currency src = Some m \<and> sublist m src \<and> currency_formatted m \<and>
         price s = remove_spaces m \<and> (CHR '' '' \<notin> set m \<longrightarrow> price s = m)"
    by (intro exI [of _ raw] exI [of _ src] exI [of _ m] conjI)
next
  fix s
  assume "mapping_slot float_repr payload requested_date = Some s"
  from mapping_slot_Some [OF this] have "price s = raw_price float_repr payload"
    by (elim exE conjE) simp
  then show "price s = strip (py_str float_repr
      (dict_get payload (the (first_alias (lower_keys payload) price_aliases)) (JStr [])))"
    by (simp only: raw_price_def)
qed

text \<open>An instance: a snippet with the price \<open>$1\<close> whose parent has \<open>$2\<close> gives \<open>$1\<close>; a
  snippet with no price takes \<open>$ 42.00\<close> from its parent and stores \<open>$42.00\<close>; a JSON price
  that is no amount is kept.\<close>
theorem price_is_currency_match_without_spaces_or_trimmed_value_witness:
  "scan_candidate ''2024-06-01''
     \<lparr>inner_text = Inr ''10:30 $1'', parent_inner_text = Inr ''$2''\<rparr> =
     Inr (Some \<lparr>date = ''2024-06-01'', time = ''10:30'', price = ''$1'', source = ''dom''\<rparr>) \<and>
   search_currency (strip ''10:30 $1'') = Some ''$1'' \<and>
   (\<exists>raw src m. (Inr ''10:30 $1'' :: py_error + string) = Inr raw \<and>
      (if search_currency (strip raw) \<noteq> None then src = strip raw
       else (Inr ''$2'' :: py_error + string) = Inr src) \<and>
      search_currency src = Some m \<and> sublist m src \<and> currency_formatted m \<and>
      ''$1'' = remove_spaces m \<and> (CHR '' '' \<notin> set m \<longrightarrow> ''$1'' = m)) \<and>
   scan_candidate ''2024-06-01''
     \<lparr>inner_text = Inr ''10:30 AM'', parent_inner_text = Inr ''Adults $ 42.00''\<rparr> =
     Inr (Some \<lparr>date = ''2024-06-01'', time = ''10:30 AM'', price = ''$42.00'', source = ''dom''\<rparr>) \<and>
   search_currency (strip ''10:30 AM'') = None \<and>
   search_currency ''Adults $ 42.00'' = Some ''$ 42.00'' \<and>
   mapping_slot (\<lambda>x :: unit. [])
     [(''time'', JStr ''10:30''), (''price'', JStr '' free '')] ''2024-06-01'' =
     Some \<lparr>date = ''2024-06-01'', time = ''10:30'', price = ''free'', source = ''network-json''\<rparr> \<and>
   ''free'' = strip (py_str (\<lambda>x :: unit. [])
       (dict_get [(''time'', JStr ''10:30''), (''price'', JStr '' free '')]
          (the (first_alias (lower_keys
             [(''time'', JStr ''10:30''), (''price'', JStr '' free '' :: unit json)])
             price_aliases)) (JStr [])))"
proof -
  let ?p = "[(''time'', JStr ''10:30''), (''price'', JStr '' free '')] :: (string \<times> unit json) list"
  let ?s = "\<lparr>date = ''2024-06-01'', time = ''10:30'', price = ''free'', source = ''network-json''\<rparr>"
  let ?e = "\<lparr>inner_text = Inr ''10:30 $1'', parent_inner_text = Inr ''$2''\<rparr>"
  let ?t = "\<lparr>date = ''2024-06-01'', time = ''10:30'', price = ''$1'', source = ''dom''\<rparr>"
  have h1: "mapping_slot (\<lambda>x :: unit. []) ?p ''2024-06-01'' = Some ?s"
    by code_simp
  have h2: "scan_candidate ''2024-06-01'' ?e = Inr (Some ?t)"
    by code_simp
  have h3: "search_currency (strip ''10:30 $1'') = Some ''$1''"
    by code_simp
  have h4: "scan_candidate ''2024-06-01''
     \<lparr>inner_text = Inr ''10:30 AM'', parent_inner_text = Inr ''Adults $ 42.00''\<rparr> =
     Inr (Some \<lparr>date = ''2024-06-01'', time = ''10:30 AM'', price = ''$42.00'', source = ''dom''\<rparr>)"
    by code_simp
  have h5: "search_currency (strip ''10:30 AM'') = None"
    by code_simp
  have h6: "search_currency ''Adults $ 42.00'' = Some ''$ 42.00''"
    by code_simp
  note inst = price_is_currency_match_without_spaces_or_trimmed_value
    [of "''2024-06-01''" ?e "\<lambda>x :: unit. []" ?p]
  from inst have "\<forall>s. mapping_slot (\<lambda>x :: unit. []) ?p ''2024-06-01'' = Some s \<longrightarrow>
      price s = strip (py_str (\<lambda>x :: unit. [])
                 (dict_get ?p (the (first_alias (lower_keys ?p) price_aliases)) (JStr [])))"
    by (rule conjunct2)
  then have "mapping_slot (\<lambda>x :: unit. []) ?p ''2024-06-01'' = Some ?s \<longrightarrow>
      price ?s = strip (py_str (\<lambda>x :: unit. [])
                 (dict_get ?p (the (first_alias (lower_keys ?p) price_aliases)) (JStr [])))"
    by (rule spec)
  with h1 have c1: "price ?s = strip (py_str (\<lambda>x :: unit. [])
                 (dict_get ?p (the (first_alias (lower_keys ?p) price_aliases)) (JStr [])))"
    by (rule rev_mp)
  from inst have "\<forall>s. scan_candidate ''2024-06-01'' ?e = Inr (Some s) \<longrightarrow>
      (\<exists>raw src m. inner_text ?e = Inr raw \<and>
         (if search_currency (strip raw) \<noteq> None then src = strip raw
          else parent_inner_text ?e = Inr src) \<and>
         search_currency src = Some m \<and> sublist m src \<and> currency_formatted m \<and>
         price s = remove_spaces m \<and> (CHR '' '' \<notin> set m \<longrightarrow> price s = m))"
    by (rule conjunct1)
  then have "scan_candidate ''2024-06-01'' ?e = Inr (Some ?t) \<longrightarrow>
      (\<exists>raw src m. inner_text ?e = Inr raw \<and>
         (if search_currency (strip raw) \<noteq> None then src = strip raw
          else parent_inner_text ?e = Inr src) \<and>
         search_currency src = Some m \<and> sublist m src \<and> currency_formatted m \<and>
         price ?t = remove_spaces m \<and> (CHR '' '' \<notin> set m \<longrightarrow> price ?t = m))"
    by (rule spec)
  with h2 have c2: "\<exists>raw src m. inner_text ?e = Inr raw \<and>
         (if search_currency (strip raw) \<noteq> None then src = strip raw
          else parent_inner_text ?e = Inr src) \<and>
         search_currency src = Some m \<and> sublist m src \<and> currency_formatted m \<and>
         price ?t = remove_spaces m \<and> (CHR '' '' \<notin> set m \<longrightarrow> price ?t = m)"
    by (rule rev_mp)
  have ps: "price ?s = ''free''" and pt: "price ?t = ''$1''"
    and ie: "inner_text ?e = Inr ''10:30 $1''" and pe: "parent_inner_text ?e = Inr ''$2''"
    by simp_all
  from h2 h3 c2 h4 h5 h6 h1 c1 show ?thesis
    unfolding ps pt ie pe by (intro conjI)
qed

section \<open>Claim C5: permuting the sequences of a payload\<close>

lemma permuted_seq_free_eq: "permuted x y \<Longrightarrow> seq_free x \<Longrightarrow> x = y"
proof (induction rule: permuted.induct)
  case (arr items items' items'')
  then show ?case by simp
next
  case (obj items items')
  from obj.prems have sf: "\<forall>v \<in> set (map snd items). seq_free v"
    by auto
  from obj.IH sf have "map snd items = map snd items'"
    by (induction rule: list_all2_induct) auto
  with obj.hyps(1) have "zip (map fst items) (map snd items) = zip (map fst items') (map snd items')"
    by simp
  then have "items = items'"
    by (simp add: zip_map_fst_snd)
  then show ?case by simp
qed simp_all

lemma map_of_related:
  assumes "map fst items = map fst items'"
    and "list_all2 R (map snd items) (map snd items')"
    and "map_of items k = Some x"
  shows "\<exists>y. map_of items' k = Some y \<and> R x y"
  using assms
proof (induction items arbitrary: items')
  case Nil
  then show ?case by simp
next
  case (Cons p items)
  from Cons.prems(1) obtain q rest where i': "items' = q # rest"
    by (cases items') auto
  with Cons.prems have f: "fst p = fst q" and m: "map fst items = map fst rest"
    and r: "R (snd p) (snd q)" and l: "list_all2 R (map snd items) (map snd rest)"
    by auto
  show ?case
  proof (cases "k = fst p")
    case True
    with Cons.prems(3) have "x = snd p"
      by (cases p) auto
    with True f r i' show ?thesis
      by (cases q) auto
  next
    case False
    with Cons.prems(3) have "map_of items k = Some x"
      by (cases p) auto
    from Cons.IH [OF m l this] obtain y where "map_of rest k = Some y \<and> R x y"
      by blast
    with False f i' show ?thesis
      by (cases q) auto
  qed
qed

lemma lower_keys_cong: "map fst items = map fst items' \<Longrightarrow> lower_keys items = lower_keys items'"
  by (simp add: lower_keys_def)

lemma first_alias_key:
  assumes "first_alias (lower_keys items) aliases = Some k"
  shows "k \<in> fst ` set items \<and> lower k \<in> set aliases"
proof -
  from assms obtain a where a: "a \<in> set aliases" "lower_keys items a = Some k"
    by (induction aliases) (auto split: option.splits)
  let ?ks = "filter (\<lambda>k. lower k = a) (map fst items)"
  from a(2) have ne: "?ks \<noteq> []" and k: "k = last ?ks"
    unfolding lower_keys_lookup by (auto split: if_splits)
  from ne have "last ?ks \<in> set ?ks"
    by (rule last_in_set)
  with k have "k \<in> set ?ks"
    by simp
  with a(1) show ?thesis
    by auto
qed

lemma alias_value_permuted:
  assumes keys: "map fst items = map fst items'"
    and vals: "list_all2 permuted (map snd items) (map snd items')"
    and flat: "\<forall>(k, v) \<in> set items. lower k \<in> set aliases \<longrightarrow> seq_free v"
    and found: "truthy (first_alias (lower_keys items) aliases)"
  shows "dict_get items (the (first_alias (lower_keys items) aliases)) dflt =
         dict_get items' (the (first_alias (lower_keys items') aliases)) dflt"
proof -
  from found obtain k where k: "first_alias (lower_keys items) aliases = Some k"
    by (cases "first_alias (lower_keys items) aliases") (simp_all add: truthy_def)
  from first_alias_key [OF k] have kin: "k \<in> fst ` set items" and al: "lower k \<in> set aliases"
    by simp_all
  from kin obtain x where x: "map_of items k = Some x"
    by (cases "map_of items k") (simp_all add: map_of_eq_None_iff)
  then have "(k, x) \<in> set items"
    by (rule map_of_SomeD)
  with flat al have "seq_free x"
    by auto
  moreover from map_of_related [OF keys vals x] obtain y where
    y: "map_of items' k = Some y" and "permuted x y"
    by blast
  ultimately have "x = y"
    using permuted_seq_free_eq by blast
  with x y k show ?thesis
    by (simp add: dict_get_def lower_keys_cong [OF keys])
qed

lemma mapping_slot_permuted:
  assumes keys: "map fst items = map fst items'"
    and vals: "list_all2 permuted (map snd items) (map snd items')"
    and flat: "\<forall>(k, v) \<in> set items. lower k \<in> set (time_aliases @ price_aliases) \<longrightarrow> seq_free v"
  shows "mapping_slot fr items d = mapping_slot fr items' d"
proof (cases "keys_found items")
  case False
  moreover from False have "\<not> keys_found items'"
    by (simp add: keys_found_def lower_keys_cong [OF keys])
  ultimately show ?thesis
    by (simp add: mapping_slot_unfold)
next
  case True
  then have kf': "keys_found items'"
    by (simp add: keys_found_def lower_keys_cong [OF keys])
  from True have t: "truthy (first_alias (lower_keys items) time_aliases)"
    and p: "truthy (first_alias (lower_keys items) price_aliases)"
    by (simp_all add: keys_found_def)
  from flat have ft: "\<forall>(k, v) \<in> set items. lower k \<in> set time_aliases \<longrightarrow> seq_free v"
    and fp: "\<forall>(k, v) \<in> set items. lower k \<in> set price_aliases \<longrightarrow> seq_free v"
    by auto
  have rt: "raw_time fr items = raw_time fr items'"
    unfolding raw_time_def by (simp only: alias_value_permuted [OF keys vals ft t])
  have rp: "raw_price fr items = raw_price fr items'"
    unfolding raw_price_def by (simp only: alias_value_permuted [OF keys vals fp p])
  show ?thesis
    unfolding mapping_slot_unfold rt rp using True kf' by simp
qed

lemma related_slots_union:
  assumes "list_all2 (\<lambda>x y. permuted x y \<and> (slot_values_seq_free x \<longrightarrow> f x = f y)) xs ys"
    and "\<forall>x \<in> set xs. slot_values_seq_free x"
  shows "\<Union> (f ` set xs) = \<Union> (f ` set ys)"
  using assms by (induction rule: list_all2_induct) auto

text \<open>
  C5, amended. Permuting the elements of the sequences of a payload leaves the set of
  emitted slots as it is, provided that no value stored under a time or price alias holds a
  sequence: such a value reaches the slot through \<open>str\<close>, which renders a sequence in the order
  of its elements.
\<close>

theorem permuting_sequences_keeps_slot_set:
  assumes "permuted v w" and "slot_values_seq_free v"
  shows "set (collect_slots_from_json float_repr v out requested_date) =
         set (collect_slots_from_json float_repr w out requested_date)"
proof -
  have "set (collect_slots_from_json float_repr v [] requested_date) =
      set (collect_slots_from_json float_repr w [] requested_date)"
    using assms
  proof (induction rule: permuted.induct)
    case (arr items items' items'')
    from arr.prems have "\<forall>x \<in> set items. slot_values_seq_free x"
      by simp
    with arr.IH have "\<Union> ((\<lambda>x. set (collect_slots_from_json float_repr x [] requested_date)) ` set items) =
        \<Union> ((\<lambda>x. set (collect_slots_from_json float_repr x [] requested_date)) ` set items')"
      by (rule related_slots_union)
    moreover from arr.hyps have "set items'' = set items'"
      by (rule mset_eq_setD)
    ultimately show ?case
      by (simp add: collect_JArr)
  next
    case (obj items items')
    from obj.prems have flat: "\<forall>(k, v) \<in> set items.
        lower k \<in> set (time_aliases @ price_aliases) \<longrightarrow> seq_free v"
      and sub: "\<forall>x \<in> set (map snd items). slot_values_seq_free x"
      by auto
    from obj.IH have vals: "list_all2 permuted (map snd items) (map snd items')"
      by (rule list_all2_mono) simp
    have "mapping_slot float_repr items requested_date = mapping_slot float_repr items' requested_date"
      using obj.hyps(1) vals flat by (rule mapping_slot_permuted)
    moreover from obj.IH sub
    have "\<Union> ((\<lambda>x. set (collect_slots_from_json float_repr x [] requested_date)) ` set (map snd items)) =
        \<Union> ((\<lambda>x. set (collect_slots_from_json float_repr x [] requested_date)) ` set (map snd items'))"
      by (rule related_slots_union)
    ultimately show ?case
      by (simp add: collect_JObj dict_values_def)
  qed simp_all
  then show ?thesis
    using collect_append [of float_repr v out requested_date]
      collect_append [of float_repr w out requested_date]
    by simp
qed

text \<open>An instance of the amended claim: two mappings in a sequence, in both orders.\<close>

theorem permuting_sequences_keeps_slot_set_witness:
  "permuted
     (JArr [JObj [(''time'', JStr ''10:30''), (''price'', JStr ''$5'')],
            JObj [(''time'', JStr ''10:40''), (''price'', JStr ''$6'')]] :: unit json)
     (JArr [JObj [(''time'', JStr ''10:40''), (''price'', JStr ''$6'')],
            JObj [(''time'', JStr ''10:30''), (''price'', JStr ''$5'')]]) \<and>
   slot_values_seq_free
     (JArr [JObj [(''time'', JStr ''10:30''), (''price'', JStr ''$5'')],
            JObj [(''time'', JStr ''10:40''), (''price'', JStr ''$6'')]] :: unit json) \<and>
   collect_slots_from_json (\<lambda>x :: unit. [])
     (JArr [JObj [(''time'', JStr ''10:30''), (''price'', JStr ''$5'')],
            JObj [(''time'', JStr ''10:40''), (''price'', JStr ''$6'')]]) [] ''2024-06-01'' =
     [\<lparr>date = ''2024-06-01'', time = ''10:30'', price = ''$5'', source = ''network-json''\<rparr>,
      \<lparr>date = ''2024-06-01'', time = ''10:40'', price = ''$6'', source = ''network-json''\<rparr>] \<and>
   set (collect_slots_from_json (\<lambda>x :: unit. [])
     (JArr [JObj [(''time'', JStr ''10:30''), (''price'', JStr ''$5'')],
            JObj [(''time'', JStr ''10:40''), (''price'', JStr ''$6'')]]) [] ''2024-06-01'') =
   set (collect_slots_from_json (\<lambda>x :: unit. [])
     (JArr [JObj [(''time'', JStr ''10:40''), (''price'', JStr ''$6'')],
            JObj [(''time'', JStr ''10:30''), (''price'', JStr ''$5'')]]) [] ''2024-06-01'')"
proof -
  let ?m1 = "JObj [(''time'', JStr ''10:30''), (''price'', JStr ''$5'')] :: unit json"
  let ?m2 = "JObj [(''time'', JStr ''10:40''), (''price'', JStr ''$6'')] :: unit json"
  have m1: "permuted ?m1 ?m1"
    by (rule permuted.obj) (simp_all add: permuted.str)
  have m2: "permuted ?m2 ?m2"
    by (rule permuted.obj) (simp_all add: permuted.str)
  from m1 m2 have "list_all2 permuted [?m1, ?m2] [?m1, ?m2]"
    by simp
  moreover have "mset [?m2, ?m1] = mset [?m1, ?m2]"
    by simp
  ultimately have p: "permuted (JArr [?m1, ?m2]) (JArr [?m2, ?m1])"
    by (rule permuted.arr)
  have f: "slot_values_seq_free (JArr [?m1, ?m2])"
    by simp
  have v: "collect_slots_from_json (\<lambda>x :: unit. []) (JArr [?m1, ?m2]) [] ''2024-06-01'' =
     [\<lparr>date = ''2024-06-01'', time = ''10:30'', price = ''$5'', source = ''network-json''\<rparr>,
      \<lparr>date = ''2024-06-01'', time = ''10:40'', price = ''$6'', source = ''network-json''\<rparr>]"
    by code_simp
  from p f v permuting_sequences_keeps_slot_set [OF p f, of "\<lambda>x :: unit. []" "[]" "''2024-06-01''"]
  show ?thesis
    by (intro conjI)
qed

text \<open>
  C5 as stated covers every payload. When the time value is itself a sequence, its \<open>str\<close>
  is scanned for the time pattern and stored as the time of the slot, so the two orders of
  the sequence give two different slots.
\<close>

theorem permuted_time_sequence_counterexample:
  "permuted
     (JObj [(''time'', JArr [JStr ''x'', JStr ''10:30'']), (''price'', JStr ''$5'')] :: unit json)
     (JObj [(''time'', JArr [JStr ''10:30'', JStr ''x'']), (''price'', JStr ''$5'')]) \<and>
   collect_slots_from_json (\<lambda>x :: unit. [])
     (JObj [(''time'', JArr [JStr ''x'', JStr ''10:30'']), (''price'', JStr ''$5'')]) [] ''2024-06-01'' =
     [\<lparr>date = ''2024-06-01'', time = ''['x', '10:30']'', price = ''$5'', source = ''network-json''\<rparr>] \<and>
   collect_slots_from_json (\<lambda>x :: unit. [])
     (JObj [(''time'', JArr [JStr ''10:30'', JStr ''x'']), (''price'', JStr ''$5'')]) [] ''2024-06-01'' =
     [\<lparr>date = ''2024-06-01'', time = ''['10:30', 'x']'', price = ''$5'', source = ''network-json''\<rparr>] \<and>
   set (collect_slots_from_json (\<lambda>x :: unit. [])
     (JObj [(''time'', JArr [JStr ''x'', JStr ''10:30'']), (''price'', JStr ''$5'')]) [] ''2024-06-01'') \<noteq>
   set (collect_slots_from_json (\<lambda>x :: unit. [])
     (JObj [(''time'', JArr [JStr ''10:30'', JStr ''x'']), (''price'', JStr ''$5'')]) [] ''2024-06-01'')"
proof -
  let ?a = "[JStr ''x'', JStr ''10:30''] :: unit json list"
  let ?b = "[JStr ''10:30'', JStr ''x''] :: unit json list"
  let ?v = "JObj [(''time'', JArr ?a), (''price'', JStr ''$5'')] :: unit json"
  let ?w = "JObj [(''time'', JArr ?b), (''price'', JStr ''$5'')] :: unit json"
  have "list_all2 permuted ?a ?a"
    by (simp add: permuted.str)
  moreover have "mset ?b = mset ?a"
    by simp
  ultimately have "permuted (JArr ?a) (JArr ?b)"
    by (rule permuted.arr)
  then have vals: "list_all2 permuted (map snd [(''time'', JArr ?a), (''price'', JStr ''$5'')])
      (map snd [(''time'', JArr ?b), (''price'', JStr ''$5'')])"
    by (simp add: permuted.str)
  have keys: "map fst [(''time'', JArr ?a), (''price'', JStr ''$5'')] =
      map fst [(''time'', JArr ?b), (''price'', JStr ''$5'')]"
    by simp
  from keys vals have p: "permuted ?v ?w"
    by (rule permuted.obj)
  have v: "collect_slots_from_json (\<lambda>x :: unit. []) ?v [] ''2024-06-01'' =
     [\<lparr>date = ''2024-06-01'', time = ''['x', '10:30']'', price = ''$5'', source = ''network-json''\<rparr>]"
    by code_simp
  have w: "collect_slots_from_json (\<lambda>x :: unit. []) ?w [] ''2024-06-01'' =
     [\<lparr>date = ''2024-06-01'', time = ''['10:30', 'x']'', price = ''$5'', source = ''network-json''\<rparr>]"
    by code_simp
  have "set (collect_slots_from_json (\<lambda>x :: unit. []) ?v [] ''2024-06-01'') \<noteq>
      set (collect_slots_from_json (\<lambda>x :: unit. []) ?w [] ''2024-06-01'')"
    unfolding v w by simp
  with p v w show ?thesis
    by (intro conjI)
qed


section \<open>Claim C9: no range check on the minutes\<close>















section \<open>Claim C6: the key aliases\<close>

lemma first_alias_is_first_matching_key:
  "first_alias (lower_keys payload) aliases = first_matching_key aliases payload"
  unfolding first_matching_key_def by (rule first_alias_lower_keys)

lemma lower_Nil_iff: "lower k = [] \<longleftrightarrow> k = []"
  by (simp add: lower_def)

lemma truthy_first_alias:
  assumes "[] \<notin> set aliases"
  shows "truthy (first_alias (lower_keys payload) aliases) \<longleftrightarrow>
         first_matching_key aliases payload \<noteq> None"
proof (cases "first_alias (lower_keys payload) aliases")
  case None
  then show ?thesis
    by (simp add: truthy_def first_alias_is_first_matching_key [symmetric])
next
  case (Some k)
  from first_alias_key [OF Some] have "lower k \<in> set aliases"
    by simp
  with assms have "lower k \<noteq> []"
    by auto
  then have "k \<noteq> []"
    by (simp add: lower_Nil_iff)
  with Some show ?thesis
    by (simp add: truthy_def first_alias_is_first_matching_key [symmetric])
qed

lemma mapping_slot_by_first_matching_key:
  "mapping_slot fr payload d =
     (case first_matching_key time_aliases payload of
        None \<Rightarrow> None
      | Some time_key \<Rightarrow>
          (case first_matching_key price_aliases payload of
             None \<Rightarrow> None
           | Some price_key \<Rightarrow>
               (case search_hhmm (strip (py_str fr (dict_get payload time_key (JStr [])))) of
                  None \<Rightarrow> None
                | Some minute \<Rightarrow>
                    if int_of_digits minute mod 10 = 0 \<and>
                       strip (py_str fr (dict_get payload price_key (JStr []))) \<noteq> []
                    then Some \<lparr>date = d,
                           time = strip (py_str fr (dict_get payload time_key (JStr []))),
                           price = strip (py_str fr (dict_get payload price_key (JStr []))),
                           source = ''network-json''\<rparr>
                    else None)))"
proof -
  have t: "truthy (first_alias (lower_keys payload) time_aliases) \<longleftrightarrow>
      first_matching_key time_aliases payload \<noteq> None"
    by (rule truthy_first_alias) (simp add: time_aliases_def)
  have p: "truthy (first_alias (lower_keys payload) price_aliases) \<longleftrightarrow>
      first_matching_key price_aliases payload \<noteq> None"
    by (rule truthy_first_alias) (simp add: price_aliases_def)
  show ?thesis
  proof (cases "first_matching_key time_aliases payload")
    case None
    with t have "\<not> keys_found payload"
      by (simp add: keys_found_def)
    with None show ?thesis
      by (simp add: mapping_slot_unfold)
  next
    case tk: (Some time_key)
    show ?thesis
    proof (cases "first_matching_key price_aliases payload")
      case None
      with p have "\<not> keys_found payload"
        by (simp add: keys_found_def)
      with tk None show ?thesis
        by (simp add: mapping_slot_unfold)
    next
      case pk: (Some price_key)
      from tk pk t p have kf: "keys_found payload"
        by (simp add: keys_found_def)
      from tk have rt: "raw_time fr payload = strip (py_str fr (dict_get payload time_key (JStr [])))"
        by (simp add: raw_time_def first_alias_is_first_matching_key)
      from pk have rp: "raw_price fr payload = strip (py_str fr (dict_get payload price_key (JStr [])))"
        by (simp add: raw_price_def first_alias_is_first_matching_key)
      show ?thesis
        unfolding mapping_slot_unfold rt rp by (simp only: kf tk pk if_True option.case)
    qed
  qed
qed

text \<open>
  C6. The slot that a mapping gives is computed from the keys that the alias lists select:
  the time is read under the key of the first of \<open>time\<close>, \<open>starttime\<close>, \<open>start_time\<close>,
  \<open>slot_time\<close> that is the lower case of some key, the price under the key of the first of
  \<open>price\<close>, \<open>adultprice\<close>, \<open>adult_price\<close>, \<open>displayprice\<close>, \<open>formattedprice\<close>, and no slot is
  given when either list selects nothing. That slot is what the scanner appends for the
  mapping, before the slots of its values. The mapping with \<open>StartTime\<close> and \<open>AdultPrice\<close>
  gives the one slot \<open>14:20\<close>, \<open>$55\<close>, \<open>network-json\<close>; with three time aliases and two price
  aliases present, the scanner emits the slot of \<open>time\<close> and \<open>adultprice\<close>.
\<close>
theorem alias_priority_case_insensitive:
  "mapping_slot float_repr payload requested_date =
     (case first_matching_key [''time'', ''starttime'', ''start_time'', ''slot_time''] payload of
        None \<Rightarrow> None
      | Some time_key \<Rightarrow>
          (case first_matching_key
                  [''price'', ''adultprice'', ''adult_price'', ''displayprice'', ''formattedprice'']
                  payload of
             None \<Rightarrow> None
           | Some price_key \<Rightarrow>
               (case search_hhmm (strip (py_str float_repr (dict_get payload time_key (JStr [])))) of
                  None \<Rightarrow> None
                | Some minute \<Rightarrow>
                    if int_of_digits minute mod 10 = 0 \<and>
                       strip (py_str float_repr (dict_get payload price_key (JStr []))) \<noteq> []
                    then Some \<lparr>date = requested_date,
                           time = strip (py_str float_repr (dict_get payload time_key (JStr []))),
                           price = strip (py_str float_repr (dict_get payload price_key (JStr []))),
                           source = ''network-json''\<rparr>
                    else None))) \<and>
   collect_slots_from_json float_repr (JObj payload) out requested_date =
     out @ (case mapping_slot float_repr payload requested_date of Some slot \<Rightarrow> [slot] | None \<Rightarrow> []) @
     concat (map (\<lambda>v. collect_slots_from_json float_repr v [] requested_date) (dict_values payload)) \<and>
   collect_slots_from_json float_repr
     (JObj [(''StartTime'', JStr ''14:20''), (''AdultPrice'', JStr ''$55'')]) [] requested_date =
     [\<lparr>date = requested_date, time = ''14:20'', price = ''$55'', source = ''network-json''\<rparr>] \<and>
   collect_slots_from_json float_repr
     (JObj [(''Slot_Time'', JStr ''9:10''), (''StartTime'', JStr ''9:20''), (''TIME'', JStr ''9:30''),
            (''displayPrice'', JStr ''$7''), (''AdultPrice'', JStr ''$5'')]) [] requested_date =
     [\<lparr>date = requested_date, time = ''9:30'', price = ''$5'', source = ''network-json''\<rparr>]"
proof (intro conjI)
  show "mapping_slot float_repr payload requested_date =
     (case first_matching_key [''time'', ''starttime'', ''start_time'', ''slot_time''] payload of
        None \<Rightarrow> None
      | Some time_key \<Rightarrow>
          (case first_matching_key
                  [''price'', ''adultprice'', ''adult_price'', ''displayprice'', ''formattedprice'']
                  payload of
             None \<Rightarrow> None
           | Some price_key \<Rightarrow>
               (case search_hhmm (strip (py_str float_repr (dict_get payload time_key (JStr [])))) of
                  None \<Rightarrow> None
                | Some minute \<Rightarrow>
                    if int_of_digits minute mod 10 = 0 \<and>
                       strip (py_str float_repr (dict_get payload price_key (JStr []))) \<noteq> []
                    then Some \<lparr>date = requested_date,
                           time = strip (py_str float_repr (dict_get payload time_key (JStr []))),
                           price = strip (py_str float_repr (dict_get payload price_key (JStr []))),
                           source = ''network-json''\<rparr>
                    else None)))"
    using mapping_slot_by_first_matching_key [of float_repr payload requested_date]
    unfolding time_aliases_def price_aliases_def .
next
  have "collect_slots_from_json float_repr (JObj payload) out requested_date =
      out @ collect_slots_from_json float_repr (JObj payload) [] requested_date"
    by (rule collect_append)
  then show "collect_slots_from_json float_repr (JObj payload) out requested_date =
     out @ (case mapping_slot float_repr payload requested_date of Some slot \<Rightarrow> [slot] | None \<Rightarrow> []) @
     concat (map (\<lambda>v. collect_slots_from_json float_repr v [] requested_date) (dict_values payload))"
    by (simp only: collect_JObj)
next
  have "mapping_slot float_repr [(''StartTime'', JStr ''14:20''), (''AdultPrice'', JStr ''$55'')]
      requested_date =
      Some \<lparr>date = requested_date, time = ''14:20'', price = ''$55'', source = ''network-json''\<rparr>"
    by code_simp
  then show "collect_slots_from_json float_repr
     (JObj [(''StartTime'', JStr ''14:20''), (''AdultPrice'', JStr ''$55'')]) [] requested_date =
     [\<lparr>date = requested_date, time = ''14:20'', price = ''$55'', source = ''network-json''\<rparr>]"
    by (simp add: collect_JObj dict_values_def)
next
  have "mapping_slot float_repr
      [(''Slot_Time'', JStr ''9:10''), (''StartTime'', JStr ''9:20''), (''TIME'', JStr ''9:30''),
       (''displayPrice'', JStr ''$7''), (''AdultPrice'', JStr ''$5'')] requested_date =
      Some \<lparr>date = requested_date, time = ''9:30'', price = ''$5'', source = ''network-json''\<rparr>"
    by code_simp
  then show "collect_slots_from_json float_repr
     (JObj [(''Slot_Time'', JStr ''9:10''), (''StartTime'', JStr ''9:20''), (''TIME'', JStr ''9:30''),
            (''displayPrice'', JStr ''$7''), (''AdultPrice'', JStr ''$5'')]) [] requested_date =
     [\<lparr>date = requested_date, time = ''9:30'', price = ''$5'', source = ''network-json''\<rparr>]"
    by (simp add: collect_JObj dict_values_def)
qed

text \<open>An instance: \<open>time\<close> wins over \<open>slot_time\<close> and \<open>starttime\<close> that come earlier in the
  mapping, \<open>adultprice\<close> over \<open>displayprice\<close>, and of the keys \<open>time\<close> and \<open>TIME\<close> the later
  one is read.\<close>
theorem alias_priority_case_insensitive_witness:
  "first_matching_key [''time'', ''starttime'', ''start_time'', ''slot_time'']
     [(''Slot_Time'', JStr ''9:10''), (''StartTime'', JStr ''9:20''), (''time'', JStr ''9:25''),
      (''TIME'', JStr ''9:30''), (''displayPrice'', JStr ''$7''), (''AdultPrice'', JInt 5)
      :: string \<times> unit json] = Some ''TIME'' \<and>
   first_matching_key [''price'', ''adultprice'', ''adult_price'', ''displayprice'', ''formattedprice'']
     [(''Slot_Time'', JStr ''9:10''), (''StartTime'', JStr ''9:20''), (''time'', JStr ''9:25''),
      (''TIME'', JStr ''9:30''), (''displayPrice'', JStr ''$7''), (''AdultPrice'', JInt 5)
      :: string \<times> unit json] = Some ''AdultPrice'' \<and>
   mapping_slot (\<lambda>x :: unit. [])
     [(''Slot_Time'', JStr ''9:10''), (''StartTime'', JStr ''9:20''), (''time'', JStr ''9:25''),
      (''TIME'', JStr ''9:30''), (''displayPrice'', JStr ''$7''), (''AdultPrice'', JInt 5)]
     ''2024-06-01'' =
     Some \<lparr>date = ''2024-06-01'', time = ''9:30'', price = ''5'', source = ''network-json''\<rparr>"
proof -
  let ?p = "[(''Slot_Time'', JStr ''9:10''), (''StartTime'', JStr ''9:20''), (''time'', JStr ''9:25''),
      (''TIME'', JStr ''9:30''), (''displayPrice'', JStr ''$7''), (''AdultPrice'', JInt 5)]
      :: (string \<times> unit json) list"
  have t: "first_matching_key [''time'', ''starttime'', ''start_time'', ''slot_time''] ?p = Some ''TIME''"
    by code_simp
  have p: "first_matching_key
      [''price'', ''adultprice'', ''adult_price'', ''displayprice'', ''formattedprice''] ?p =
      Some ''AdultPrice''"
    by code_simp
  have tv: "strip (py_str (\<lambda>x :: unit. []) (dict_get ?p ''TIME'' (JStr []))) = ''9:30''"
    by code_simp
  have pv: "strip (py_str (\<lambda>x :: unit. []) (dict_get ?p ''AdultPrice'' (JStr []))) = ''5''"
    by code_simp
  have sh: "search_hhmm ''9:30'' = Some ''30''"
    by code_simp
  have iv: "int_of_digits ''30'' mod 10 = 0 \<and> ''5'' \<noteq> []"
    by code_simp
  from alias_priority_case_insensitive [of "\<lambda>x :: unit. []" ?p "''2024-06-01''" "[]"]
  have "mapping_slot (\<lambda>x :: unit. []) ?p ''2024-06-01'' =
     (case first_matching_key [''time'', ''starttime'', ''start_time'', ''slot_time''] ?p of
        None \<Rightarrow> None
      | Some time_key \<Rightarrow>
          (case first_matching_key
                  [''price'', ''adultprice'', ''adult_price'', ''displayprice'', ''formattedprice'']
                  ?p of
             None \<Rightarrow> None
           | Some price_key \<Rightarrow>
               (case search_hhmm (strip (py_str (\<lambda>x :: unit. []) (dict_get ?p time_key (JStr [])))) of
                  None \<Rightarrow> None
                | Some minute \<Rightarrow>
                    if int_of_digits minute mod 10 = 0 \<and>
                       strip (py_str (\<lambda>x :: unit. []) (dict_get ?p price_key (JStr []))) \<noteq> []
                    then Some \<lparr>date = ''2024-06-01'',
                           time = strip (py_str (\<lambda>x :: unit. []) (dict_get ?p time_key (JStr []))),
                           price = strip (py_str (\<lambda>x :: unit. []) (dict_get ?p price_key (JStr []))),
                           source = ''network-json''\<rparr>
                    else None)))"
    by (rule conjunct1)
  then have "mapping_slot (\<lambda>x :: unit. []) ?p ''2024-06-01'' =
     Some \<lparr>date = ''2024-06-01'', time = ''9:30'', price = ''5'', source = ''network-json''\<rparr>"
    by (simp only: t p option.case tv pv sh iv simp_thms if_True)
  with t p show ?thesis
    by (intro conjI)
qed

end
